theory Spec2Isabelle
  imports Complex_Main "HOL-Library.AList"
begin

section \<open>Python values, dictionaries and exceptions\<close>

text \<open>
  The notebook \<^verbatim>\<open>GraphAndRete.ipynb\<close> is modelled cell by cell. Objects (vertices and
  edges) are mutable and shared by reference, so they live in a store and are named by
  references. A vertex id is a \<^verbatim>\<open>uuid.uuid4()\<close> object; the program only compares
  ids, uses them as dictionary keys and formats them with \<^verbatim>\<open>str\<close>, so an id is
  modelled by its canonical text and the id generator is a parameter of vertex creation.
\<close>

type_synonym ref = nat
type_synonym uuid = string

text \<open>
  A \<^verbatim>\<open>float\<close> is a double: a finite one is a rational number, and there are the two
  infinities and not-a-number. The program only compares floats, so the two zeros are one
  value here. A number is an \<^verbatim>\<open>int\<close> (unbounded; a \<^verbatim>\<open>bool\<close> counts as the \<^verbatim>\<open>int\<close> 0 or 1)
  or a \<^verbatim>\<open>float\<close>.
\<close>

datatype pyfloat = Finite rat | PosInf | NegInf | NaN

datatype pynum = NInt int | NFloat pyfloat

datatype pyval =
    PNone
  | PBool bool
  | PInt int
  | PFloat pyfloat
  | PStr string
  | PList "pyval list"
  | PUUID uuid
  | PVertex ref
  | PEdge ref

text \<open>Dictionary keys of the attribute dictionaries: the hashable atoms the notebook uses.\<close>

datatype pykey = KInt int | KStr string

text \<open>
  A Python \<^verbatim>\<open>dict\<close> keeps insertion order and unique keys: an association list,
  \<^verbatim>\<open>d[k] = v\<close> being \<^const>\<open>AList.update\<close> (replace in place, or append).
\<close>

type_synonym pydict = "(pykey \<times> pyval) list"

datatype exn = AttributeError | TypeError | IndexError | NameError | RecursionError | Blocked

definition bind_exn :: "exn + 'a \<Rightarrow> ('a \<Rightarrow> exn + 'b) \<Rightarrow> exn + 'b" where
  "bind_exn m f = (case m of Inl e \<Rightarrow> Inl e | Inr a \<Rightarrow> f a)"

section \<open>The graph classes\<close>

subsection \<open>Identifiers\<close>

text \<open>\<^verbatim>\<open>edge_id\<close>: \<^verbatim>\<open>"{}.{}".format(str(vertex1id), str(vertex2id))\<close>.\<close>

definition edge_id :: "uuid \<Rightarrow> uuid \<Rightarrow> string" where
  "edge_id vertex1id vertex2id = vertex1id @ ''.'' @ vertex2id"

subsection \<open>Base, VertexBase, EdgeBase, Vertex, Edge\<close>

text \<open>
  The class hierarchy as record extension. The field \<^verbatim>\<open>id\<close> is named \<open>vid\<close>
  (\<open>id\<close> is the identity function of HOL), the endpoint fields \<^verbatim>\<open>v1\<close>, \<^verbatim>\<open>v2\<close> of
  an edge are \<open>ev1\<close>, \<open>ev2\<close>, and the dictionary \<^verbatim>\<open>edges\<close> of a graph is \<open>gedges\<close>
  (the list \<^verbatim>\<open>edges\<close> of a vertex keeps its name). Class \<^verbatim>\<open>Edge\<close> adds no field to
  \<^verbatim>\<open>EdgeBase\<close>. The cursor \<^verbatim>\<open>iv\<close> is only ever set to 0 and incremented: a \<open>nat\<close>.
\<close>

record base =
  data :: pydict

record vertex_base = base +
  vid :: uuid

record edge_base = base +
  ev1 :: uuid
  ev2 :: uuid

record vertex = vertex_base +
  edges :: "string list"
  iv :: nat

type_synonym edge = edge_base

record graph =
  vertices :: "(uuid \<times> ref) list"
  gedges :: "(string \<times> ref) list"

text \<open>\<^verbatim>\<open>Base.insert_data\<close>: \<^verbatim>\<open>self.data[name] = value\<close>.\<close>

definition insert_data :: "pykey \<Rightarrow> pyval \<Rightarrow> 'a base_scheme \<Rightarrow> 'a base_scheme" where
  "insert_data name val self = self\<lparr>data := AList.update name val (data self)\<rparr>"

text \<open>\<^verbatim>\<open>Base.get_data\<close>: the stored value when \<^verbatim>\<open>name in self.data\<close>, else \<^verbatim>\<open>None\<close>.\<close>

definition get_data :: "pykey \<Rightarrow> 'a base_scheme \<Rightarrow> pyval" where
  "get_data name self = (case map_of (data self) name of Some v \<Rightarrow> v | None \<Rightarrow> PNone)"

definition VertexBase_get_id :: "'a vertex_base_scheme \<Rightarrow> uuid" where
  "VertexBase_get_id self = vid self"

definition EdgeBase_get_id :: "'a edge_base_scheme \<Rightarrow> string" where
  "EdgeBase_get_id self = edge_id (ev1 self) (ev2 self)"

text \<open>The constructors. \<^verbatim>\<open>Vertex()\<close> draws its id from \<^verbatim>\<open>new_vertex_id()\<close>: the argument \<open>u\<close>.\<close>

definition Vertex_init :: "uuid \<Rightarrow> vertex" where
  "Vertex_init u = \<lparr>data = [], vid = u, edges = [], iv = 0\<rparr>"

definition Edge_init :: "vertex \<Rightarrow> vertex \<Rightarrow> edge" where
  "Edge_init vtx1 vtx2 = \<lparr>data = [], ev1 = VertexBase_get_id vtx1, ev2 = VertexBase_get_id vtx2\<rparr>"

definition Graph_init :: graph where
  "Graph_init = \<lparr>vertices = [], gedges = []\<rparr>"

subsection \<open>Predicate evaluation\<close>

text \<open>
  \<^verbatim>\<open>data[i]\<close> for the constant indices 1 and 2 of \<^verbatim>\<open>apply_rule\<close>: lists and strings are
  subscriptable (out of range raises IndexError), nothing else is (TypeError).
\<close>

definition subscript :: "pyval \<Rightarrow> nat \<Rightarrow> exn + pyval" where
  "subscript d i =
     (case d of
        PList xs \<Rightarrow> (if i < length xs then Inr (xs ! i) else Inl IndexError)
      | PStr s \<Rightarrow> (if i < length s then Inr (PStr [s ! i]) else Inl IndexError)
      | _ \<Rightarrow> Inl TypeError)"

text \<open>
  The number a value stands for in \<^verbatim>\<open>x > t\<close> and \<^verbatim>\<open>x < t\<close> (a \<^verbatim>\<open>bool\<close> is an
  \<^verbatim>\<open>int\<close> in Python); comparing a number with anything else raises TypeError.
\<close>

definition as_number :: "pyval \<Rightarrow> exn + pynum" where
  "as_number t =
     (case t of
        PInt n \<Rightarrow> Inr (NInt n)
      | PBool b \<Rightarrow> Inr (NInt (if b then 1 else 0))
      | PFloat f \<Rightarrow> Inr (NFloat f)
      | _ \<Rightarrow> Inl TypeError)"

text \<open>
  Python compares two numbers by their exact values, also an \<^verbatim>\<open>int\<close> with a
  \<^verbatim>\<open>float\<close>; every comparison with not-a-number is false. \<open>py_lt x y\<close> is \<^verbatim>\<open>x < y\<close> and
  \<open>py_gt x y\<close> is \<^verbatim>\<open>x > y\<close>.
\<close>

fun float_of :: "pynum \<Rightarrow> pyfloat" where
  "float_of (NInt n) = Finite (of_int n)"
| "float_of (NFloat f) = f"

fun float_less :: "pyfloat \<Rightarrow> pyfloat \<Rightarrow> bool" where
  "float_less (Finite a) (Finite b) = (a < b)"
| "float_less (Finite a) PosInf = True"
| "float_less NegInf (Finite b) = True"
| "float_less NegInf PosInf = True"
| "float_less _ _ = False"

definition py_lt :: "pynum \<Rightarrow> pynum \<Rightarrow> bool" where
  "py_lt x y = float_less (float_of x) (float_of y)"

definition py_gt :: "pynum \<Rightarrow> pynum \<Rightarrow> bool" where
  "py_gt x y = float_less (float_of y) (float_of x)"

text \<open>The value a number is as an element of a triple.\<close>

fun num_val :: "pynum \<Rightarrow> pyval" where
  "num_val (NInt n) = PInt n"
| "num_val (NFloat f) = PFloat f"

text \<open>
  \<^verbatim>\<open>apply_rule(data, x)\<close>. The \<^verbatim>\<open>print\<close> evaluates \<^verbatim>\<open>data[1]\<close> and \<^verbatim>\<open>data[2]\<close> first
  (what it writes is not modelled); then the two comparators are tried in turn, and a
  function body that ends without \<^verbatim>\<open>return\<close> returns \<^verbatim>\<open>None\<close>.
\<close>

definition apply_rule :: "pyval \<Rightarrow> pynum \<Rightarrow> exn + pyval" where
  "apply_rule rule x =
     bind_exn (subscript rule 1) (\<lambda>cmp.
     bind_exn (subscript rule 2) (\<lambda>thr.
       if cmp = PStr ''>'' then bind_exn (as_number thr) (\<lambda>t. Inr (PBool (py_gt x t)))
       else if cmp = PStr ''<'' then bind_exn (as_number thr) (\<lambda>t. Inr (PBool (py_lt x t)))
       else Inr PNone))"

subsection \<open>Graph\<close>

text \<open>
  A method that returns an object returns a reference to it, or \<^verbatim>\<open>None\<close>. The two
  dictionaries of a graph hold references into the store below.
\<close>

definition Graph_get_vertex :: "uuid \<Rightarrow> graph \<Rightarrow> pyval" where
  "Graph_get_vertex vtxid self =
     (case map_of (vertices self) vtxid of Some r \<Rightarrow> PVertex r | None \<Rightarrow> PNone)"

definition Graph_get_edge :: "string \<Rightarrow> graph \<Rightarrow> pyval" where
  "Graph_get_edge edgid self =
     (case map_of (gedges self) edgid of Some r \<Rightarrow> PEdge r | None \<Rightarrow> PNone)"

subsection \<open>Vertex: adjacency and cursor\<close>

definition Vertex_add_edge :: "edge \<Rightarrow> vertex \<Rightarrow> vertex" where
  "Vertex_add_edge e self = self\<lparr>edges := edges self @ [EdgeBase_get_id e]\<rparr>"

text \<open>
  \<^verbatim>\<open>Vertex.get_edge\<close>: \<^verbatim>\<open>None\<close> when \<^verbatim>\<open>len(self.edges) <= self.iv\<close>; otherwise the
  cursor moves on by one and the entry it passed is looked up in the graph. The method
  returns its result and the updated \<^verbatim>\<open>self\<close>.
\<close>

definition Vertex_get_edge :: "graph \<Rightarrow> vertex \<Rightarrow> pyval \<times> vertex" where
  "Vertex_get_edge g self =
     (if length (edges self) \<le> iv self then (PNone, self)
      else (let self' = self\<lparr>iv := iv self + 1\<rparr>
            in (Graph_get_edge (edges self' ! (iv self' - 1)) g, self')))"

definition Vertex_get_first_edge :: "graph \<Rightarrow> vertex \<Rightarrow> pyval \<times> vertex" where
  "Vertex_get_first_edge g self = Vertex_get_edge g (self\<lparr>iv := 0\<rparr>)"

definition Vertex_number_edges :: "vertex \<Rightarrow> nat" where
  "Vertex_number_edges self = length (edges self)"

definition Edge_get_vertex1 :: "graph \<Rightarrow> edge \<Rightarrow> pyval" where
  "Edge_get_vertex1 g self = Graph_get_vertex (ev1 self) g"

definition Edge_get_vertex2 :: "graph \<Rightarrow> edge \<Rightarrow> pyval" where
  "Edge_get_vertex2 g self = Graph_get_vertex (ev2 self) g"

text \<open>
  \<^verbatim>\<open>get_first_edge\<close> followed by \<open>n\<close> further calls of \<^verbatim>\<open>get_edge\<close> on the same vertex:
  the results in call order, and the vertex afterwards.
\<close>

fun get_edge_times :: "graph \<Rightarrow> nat \<Rightarrow> vertex \<Rightarrow> pyval list \<times> vertex" where
  "get_edge_times g 0 self = ([], self)"
| "get_edge_times g (Suc n) self =
     (case Vertex_get_edge g self of
        (e, self') \<Rightarrow> (case get_edge_times g n self' of (es, self'') \<Rightarrow> (e # es, self'')))"

definition enumerate_edges :: "graph \<Rightarrow> nat \<Rightarrow> vertex \<Rightarrow> pyval list \<times> vertex" where
  "enumerate_edges g n self =
     (case Vertex_get_first_edge g self of
        (e, self') \<Rightarrow> (case get_edge_times g n self' of (es, self'') \<Rightarrow> (e # es, self'')))"

subsection \<open>The store\<close>

text \<open>
  Vertex and edge objects by reference; \<open>vnext\<close> and \<open>enext\<close> are the next free
  references, so a constructor call allocates there.
\<close>

record heap =
  vheap :: "ref \<Rightarrow> vertex"
  vnext :: ref
  eheap :: "ref \<Rightarrow> edge"
  enext :: ref

definition empty_heap :: heap where
  "empty_heap =
     \<lparr>vheap = (\<lambda>_. Vertex_init []), vnext = 0,
      eheap = (\<lambda>_. \<lparr>data = [], ev1 = [], ev2 = []\<rparr>), enext = 0\<rparr>"

definition new_Vertex :: "uuid \<Rightarrow> heap \<Rightarrow> ref \<times> heap" where
  "new_Vertex u h =
     (vnext h, h\<lparr>vheap := (vheap h)(vnext h := Vertex_init u), vnext := Suc (vnext h)\<rparr>)"

definition new_Edge :: "ref \<Rightarrow> ref \<Rightarrow> heap \<Rightarrow> ref \<times> heap" where
  "new_Edge vertex1 vertex2 h =
     (enext h,
      h\<lparr>eheap := (eheap h)(enext h := Edge_init (vheap h vertex1) (vheap h vertex2)),
        enext := Suc (enext h)\<rparr>)"

text \<open>A method call on the vertex object at a reference: the object is updated in place.\<close>

definition call_vertex :: "(vertex \<Rightarrow> 'a \<times> vertex) \<Rightarrow> ref \<Rightarrow> heap \<Rightarrow> 'a \<times> heap" where
  "call_vertex m r h =
     (case m (vheap h r) of (a, self') \<Rightarrow> (a, h\<lparr>vheap := (vheap h)(r := self')\<rparr>))"

definition vertex_insert_data :: "ref \<Rightarrow> pykey \<Rightarrow> pyval \<Rightarrow> heap \<Rightarrow> heap" where
  "vertex_insert_data r name val h = h\<lparr>vheap := (vheap h)(r := insert_data name val (vheap h r))\<rparr>"

definition edge_insert_data :: "ref \<Rightarrow> pykey \<Rightarrow> pyval \<Rightarrow> heap \<Rightarrow> heap" where
  "edge_insert_data r name val h = h\<lparr>eheap := (eheap h)(r := insert_data name val (eheap h r))\<rparr>"

text \<open>
  \<^verbatim>\<open>Graph.add_vertex\<close> and \<^verbatim>\<open>Graph.add_edge\<close>: the object is stored under its id
  (\<^verbatim>\<open>self.vertices[vtx.get_id()] = vtx\<close>) and the object itself is returned.
\<close>

definition Graph_add_vertex :: "heap \<Rightarrow> ref \<Rightarrow> graph \<Rightarrow> pyval \<times> graph" where
  "Graph_add_vertex h vtx self =
     (PVertex vtx,
      self\<lparr>vertices := AList.update (VertexBase_get_id (vheap h vtx)) vtx (vertices self)\<rparr>)"

definition Graph_add_edge :: "heap \<Rightarrow> ref \<Rightarrow> graph \<Rightarrow> pyval \<times> graph" where
  "Graph_add_edge h edg self =
     (PEdge edg,
      self\<lparr>gedges := AList.update (EdgeBase_get_id (eheap h edg)) edg (gedges self)\<rparr>)"

text \<open>
  \<^verbatim>\<open>create_edge(graph, vertex1, vertex2)\<close>: construct the edge, append its id to
  \<^verbatim>\<open>vertex1\<close>, then to \<^verbatim>\<open>vertex2\<close>, register it in the graph, return it.
\<close>

definition create_edge :: "graph \<Rightarrow> ref \<Rightarrow> ref \<Rightarrow> heap \<Rightarrow> pyval \<times> graph \<times> heap" where
  "create_edge g vertex1 vertex2 h =
     (case new_Edge vertex1 vertex2 h of
        (e, h1) \<Rightarrow>
          (let h2 = h1\<lparr>vheap := (vheap h1)(vertex1 := Vertex_add_edge (eheap h1 e) (vheap h1 vertex1))\<rparr>;
               h3 = h2\<lparr>vheap := (vheap h2)(vertex2 := Vertex_add_edge (eheap h2 e) (vheap h2 vertex2))\<rparr>
           in (PEdge e, snd (Graph_add_edge h3 e g), h3)))"

section \<open>Dumping a graph\<close>

text \<open>
  \<^verbatim>\<open>dump_graph(graph, v, visited = None)\<close> prints \<^verbatim>\<open>v\<close>, then walks its adjacency list with
  \<^verbatim>\<open>get_first_edge\<close> and \<^verbatim>\<open>get_edge\<close>; every edge whose id is not yet in the shared list
  \<^verbatim>\<open>visited\<close> is recorded, printed and followed to its second vertex, recursively. The
  \<^verbatim>\<open>while\<close> loop is \<open>dump_loop\<close>, entered with the edge \<open>e\<close> just fetched. What is written to
  the terminal is modelled by the list \<open>out\<close> of the objects printed, in order.
  \<^verbatim>\<open>v.print()\<close> on \<^verbatim>\<open>None\<close> (a second vertex that is not registered) raises AttributeError.

  The function calls itself once for every edge it follows, and the interpreter bounds the
  depth of calls (\<^verbatim>\<open>sys.getrecursionlimit()\<close>). \<open>depth\<close> is the number of nested
  activations of \<^verbatim>\<open>dump_graph\<close> on a vertex that the interpreter still admits: its limit
  less the frames in use at the call and those that the methods called by one activation
  need (\<^verbatim>\<open>print\<close>, \<^verbatim>\<open>get_first_edge\<close>). With none left the call raises RecursionError.
\<close>

function (domintros) dump_graph :: "nat \<Rightarrow> graph \<Rightarrow> pyval \<Rightarrow> string list \<Rightarrow> pyval list \<Rightarrow> heap \<Rightarrow> exn + (heap \<times> string list \<times> pyval list)"
  and dump_loop :: "nat \<Rightarrow> graph \<Rightarrow> ref \<Rightarrow> pyval \<Rightarrow> string list \<Rightarrow> pyval list \<Rightarrow> heap \<Rightarrow> exn + (heap \<times> string list \<times> pyval list)"
where
  "dump_graph depth g v visited out h =
     (case v of
        PVertex r \<Rightarrow>
          (if depth = 0 then Inl RecursionError
           else (case call_vertex (Vertex_get_first_edge g) r h of
                   (e, h1) \<Rightarrow> dump_loop depth g r e visited (out @ [PVertex r]) h1))
      | _ \<Rightarrow> Inl AttributeError)"
| "dump_loop depth g r e visited out h =
     (case e of
        PNone \<Rightarrow> Inr (h, visited, out)
      | PEdge er \<Rightarrow>
          (if EdgeBase_get_id (eheap h er) \<notin> set visited then
             (case dump_graph (depth - 1) g (Edge_get_vertex2 g (eheap h er))
                     (visited @ [EdgeBase_get_id (eheap h er)]) (out @ [PEdge er]) h of
                Inl x \<Rightarrow> Inl x
              | Inr (h2, visited2, out2) \<Rightarrow>
                  (case call_vertex (Vertex_get_edge g) r h2 of
                     (e', h3) \<Rightarrow> dump_loop depth g r e' visited2 out2 h3))
           else
             (case call_vertex (Vertex_get_edge g) r h of
                (e', h3) \<Rightarrow> dump_loop depth g r e' visited out h3))
      | _ \<Rightarrow> Inl AttributeError)"
  by pat_completeness auto

definition cursor_only :: "heap \<Rightarrow> heap \<Rightarrow> bool" where
  "cursor_only h h' \<longleftrightarrow>
     eheap h' = eheap h \<and> vnext h' = vnext h \<and> enext h' = enext h
     \<and> (\<forall>r. vheap h' r = (vheap h r)\<lparr>iv := iv (vheap h' r)\<rparr>)"

lemma cursor_only_refl: "cursor_only h h"
  by (simp add: cursor_only_def)

lemma cursor_only_trans: "cursor_only h h1 \<Longrightarrow> cursor_only h1 h2 \<Longrightarrow> cursor_only h h2"
  unfolding cursor_only_def
  apply (intro conjI allI)
     apply simp
    apply simp
   apply simp
  apply (metis (no_types, lifting) vertex.surjective vertex.update_convs(2))
  done

lemma call_get_edge_cursor_only:
  "call_vertex (Vertex_get_edge g) r h = (e, h') \<Longrightarrow> cursor_only h h'"
  by (auto simp: call_vertex_def Vertex_get_edge_def cursor_only_def Let_def split: if_splits)

lemma call_get_first_edge_cursor_only:
  "call_vertex (Vertex_get_first_edge g) r h = (e, h') \<Longrightarrow> cursor_only h h'"
  by (auto simp: call_vertex_def Vertex_get_first_edge_def Vertex_get_edge_def cursor_only_def Let_def
      split: if_splits)

lemma dump_partial:
  "dump_graph_dump_loop_dom (Inl (dp, g, v, vis, out, h)) \<Longrightarrow>
     dump_graph dp g v vis out h = Inr (h', vis', out') \<Longrightarrow> cursor_only h h' \<and> set vis \<subseteq> set vis'"
  "dump_graph_dump_loop_dom (Inr (dp, g, r, e, vis, out, h)) \<Longrightarrow>
     dump_loop dp g r e vis out h = Inr (h', vis', out') \<Longrightarrow> cursor_only h h' \<and> set vis \<subseteq> set vis'"
proof (induct arbitrary: h' vis' out' and h' vis' out' rule: dump_graph_dump_loop.pinduct)
  case (1 dp g v visited out h)
  from "1.prems" "1.hyps"(1) obtain r where v: "v = PVertex r" and dz: "dp \<noteq> 0"
    by (auto simp: dump_graph.psimps split: pyval.splits if_splits)
  obtain e h1 where c: "call_vertex (Vertex_get_first_edge g) r h = (e, h1)"
    by (cases "call_vertex (Vertex_get_first_edge g) r h")
  from "1.prems" "1.hyps"(1) v dz c have "dump_loop dp g r e visited (out @ [PVertex r]) h1 = Inr (h', vis', out')"
    by (simp add: dump_graph.psimps)
  from "1.hyps"(2)[OF v dz c[symmetric] this] call_get_first_edge_cursor_only[OF c]
  show ?case by (blast intro: cursor_only_trans)
next
  case (2 dp g r e visited out h)
  show ?case
  proof (cases e)
    case PNone
    with "2.prems" "2.hyps"(1) show ?thesis
      by (simp add: dump_loop.psimps cursor_only_refl)
  next
    case (PEdge er)
    show ?thesis
    proof (cases "EdgeBase_get_id (eheap h er) \<in> set visited")
      case True
      obtain e' h3 where c: "call_vertex (Vertex_get_edge g) r h = (e', h3)"
        by (cases "call_vertex (Vertex_get_edge g) r h")
      from "2.prems" "2.hyps"(1) PEdge True c
      have "dump_loop dp g r e' visited out h3 = Inr (h', vis', out')"
        by (simp add: dump_loop.psimps)
      from "2.hyps"(4)[OF PEdge _ c[symmetric] this] True call_get_edge_cursor_only[OF c]
      show ?thesis by (blast intro: cursor_only_trans)
    next
      case False
      from "2.prems" "2.hyps"(1) PEdge False obtain h2 vis2 out2 where
        d: "dump_graph (dp - 1) g (Edge_get_vertex2 g (eheap h er))
             (visited @ [EdgeBase_get_id (eheap h er)]) (out @ [PEdge er]) h = Inr (h2, vis2, out2)"
        by (auto simp: dump_loop.psimps split: sum.splits)
      obtain e' h3 where c: "call_vertex (Vertex_get_edge g) r h2 = (e', h3)"
        by (cases "call_vertex (Vertex_get_edge g) r h2")
      from "2.prems" "2.hyps"(1) PEdge False d c
      have l: "dump_loop dp g r e' vis2 out2 h3 = Inr (h', vis', out')"
        by (simp add: dump_loop.psimps)
      from "2.hyps"(2)[OF PEdge False d] have a: "cursor_only h h2"
        and b: "set (visited @ [EdgeBase_get_id (eheap h er)]) \<subseteq> set vis2" by simp_all
      from "2.hyps"(3)[OF PEdge False d refl refl c[symmetric] l]
      have "cursor_only h3 h'" and "set vis2 \<subseteq> set vis'" by simp_all
      with a b call_get_edge_cursor_only[OF c] show ?thesis
        by (auto intro: cursor_only_trans)
    qed
  qed (use "2.prems" "2.hyps"(1) in \<open>simp_all add: dump_loop.psimps\<close>)
qed


definition registered_ids :: "graph \<Rightarrow> heap \<Rightarrow> string set" where
  "registered_ids g h = (\<lambda>p. EdgeBase_get_id (eheap h (snd p))) ` set (gedges g)"

definition pending_ids :: "heap \<Rightarrow> pyval \<Rightarrow> string set" where
  "pending_ids h e = (case e of PEdge er \<Rightarrow> {EdgeBase_get_id (eheap h er)} | _ \<Rightarrow> {})"

fun dump_measure ::
  "(nat \<times> graph \<times> pyval \<times> string list \<times> pyval list \<times> heap) + (nat \<times> graph \<times> ref \<times> pyval \<times> string list \<times> pyval list \<times> heap)
     \<Rightarrow> nat \<times> nat" where
  "dump_measure (Inl (dp, g, v, visited, out, h)) =
     (card (registered_ids g h - set visited),
      (case v of PVertex r \<Rightarrow> length (edges (vheap h r)) + 2 | _ \<Rightarrow> 0))"
| "dump_measure (Inr (dp, g, r, e, visited, out, h)) =
     (card ((registered_ids g h \<union> pending_ids h e) - set visited),
      (length (edges (vheap h r)) - iv (vheap h r)) + (case e of PEdge er \<Rightarrow> 1 | _ \<Rightarrow> 0))"

lemma finite_registered_ids: "finite (registered_ids g h)"
  by (simp add: registered_ids_def)

lemma registered_ids_cursor_only: "cursor_only h h' \<Longrightarrow> registered_ids g h' = registered_ids g h"
  by (simp add: registered_ids_def cursor_only_def)

lemma Graph_get_edge_registered:
  "Graph_get_edge k g = PEdge er \<Longrightarrow> EdgeBase_get_id (eheap h er) \<in> registered_ids g h"
  by (auto simp: Graph_get_edge_def registered_ids_def split: option.splits dest!: map_of_SomeD
      intro!: image_eqI[where x="(k, er)"])

lemma get_edge_pending:
  "call_vertex (Vertex_get_edge g) r h = (e, h') \<Longrightarrow> pending_ids h' e \<subseteq> registered_ids g h"
  by (auto simp: call_vertex_def Vertex_get_edge_def pending_ids_def Let_def
      split: if_splits pyval.splits dest: Graph_get_edge_registered)

lemma get_first_edge_pending:
  "call_vertex (Vertex_get_first_edge g) r h = (e, h') \<Longrightarrow> pending_ids h' e \<subseteq> registered_ids g h"
  by (auto simp: call_vertex_def Vertex_get_first_edge_def Vertex_get_edge_def pending_ids_def Let_def
      split: if_splits pyval.splits dest: Graph_get_edge_registered)

lemma get_edge_advances:
  "call_vertex (Vertex_get_edge g) r h = (e, h') \<Longrightarrow>
     (length (edges (vheap h' r)) - iv (vheap h' r)) + (case e of PEdge er \<Rightarrow> 1 | _ \<Rightarrow> 0)
       < Suc (length (edges (vheap h r)) - iv (vheap h r))"
  by (auto simp: call_vertex_def Vertex_get_edge_def Let_def split: if_splits pyval.splits)

lemma get_first_edge_bound:
  "call_vertex (Vertex_get_first_edge g) r h = (e, h') \<Longrightarrow>
     (length (edges (vheap h' r)) - iv (vheap h' r)) + (case e of PEdge er \<Rightarrow> 1 | _ \<Rightarrow> 0)
       < length (edges (vheap h r)) + 2"
  by (auto simp: call_vertex_def Vertex_get_first_edge_def Vertex_get_edge_def Let_def
      split: if_splits pyval.splits)

termination dump_graph
proof (relation "inv_image (less_than <*lex*> less_than) dump_measure", goal_cases)
  case 1
  show ?case by (intro wf_inv_image wf_lex_prod wf_less_than)
next
  case (2 dp g v visited out h r e h1)
  from 2(3) have c: "call_vertex (Vertex_get_first_edge g) r h = (e, h1)" by simp
  have "registered_ids g h1 \<union> pending_ids h1 e = registered_ids g h"
    using get_first_edge_pending[OF c] registered_ids_cursor_only[OF call_get_first_edge_cursor_only[OF c]]
    by auto
  then show ?case using get_first_edge_bound[OF c] 2(1) by simp
next
  case (3 dp g r e visited out h er)
  have "registered_ids g h - set (visited @ [EdgeBase_get_id (eheap h er)])
          \<subset> (registered_ids g h \<union> pending_ids h e) - set visited"
    using 3 by (auto simp: pending_ids_def)
  then have "card (registered_ids g h - set (visited @ [EdgeBase_get_id (eheap h er)]))
          < card ((registered_ids g h \<union> pending_ids h e) - set visited)"
    by (intro psubset_card_mono) (auto simp: finite_registered_ids pending_ids_def split: pyval.splits)
  then show ?case by simp
next
  case (4 dp g r e visited out h er b h2 y vis2 out2 e' h3)
  from 4 have d: "dump_graph (dp - 1) g (Edge_get_vertex2 g (eheap h er))
      (visited @ [EdgeBase_get_id (eheap h er)]) (out @ [PEdge er]) h = Inr (h2, vis2, out2)"
    and dm: "dump_graph_dump_loop_dom (Inl (dp - 1, g, Edge_get_vertex2 g (eheap h er),
      visited @ [EdgeBase_get_id (eheap h er)], out @ [PEdge er], h))"
    and c: "call_vertex (Vertex_get_edge g) r h2 = (e', h3)"
    by auto
  from dump_partial(1)[OF dm d] have a: "cursor_only h h2"
    and b: "set (visited @ [EdgeBase_get_id (eheap h er)]) \<subseteq> set vis2" by simp_all
  have r2: "registered_ids g h2 = registered_ids g h"
    by (rule registered_ids_cursor_only[OF a])
  have "registered_ids g h3 \<union> pending_ids h3 e' = registered_ids g h"
    using get_edge_pending[OF c] registered_ids_cursor_only[OF call_get_edge_cursor_only[OF c]] r2
    by auto
  moreover have "registered_ids g h - set vis2 \<subset> (registered_ids g h \<union> pending_ids h e) - set visited"
    using 4(1,2) b by (auto simp: pending_ids_def)
  then have "card (registered_ids g h - set vis2)
          < card ((registered_ids g h \<union> pending_ids h e) - set visited)"
    by (intro psubset_card_mono) (auto simp: finite_registered_ids pending_ids_def split: pyval.splits)
  ultimately show ?case by simp
next
  case (5 dp g r e visited out h er e' h3)
  from 5(3) have c: "call_vertex (Vertex_get_edge g) r h = (e', h3)" by simp
  have "registered_ids g h3 \<union> pending_ids h3 e' = registered_ids g h"
    using get_edge_pending[OF c] registered_ids_cursor_only[OF call_get_edge_cursor_only[OF c]]
    by auto
  moreover have "(registered_ids g h \<union> pending_ids h e) - set visited = registered_ids g h - set visited"
    using 5(1,2) by (auto simp: pending_ids_def)
  ultimately show ?case using get_edge_advances[OF c] 5(1) by simp
qed




lemma all_dom:
  "dump_graph_dump_loop_dom (Inl (dp, g, v, visited, out, h))"
  "dump_graph_dump_loop_dom (Inr (dp, g, r, e, visited, out, h))"
proof (induct dp g v visited out h and dp g r e visited out h rule: dump_graph_dump_loop.induct)
  case (1 dp g v visited out h)
  then show ?case by (auto intro: dump_graph_dump_loop.domintros)
next
  case (2 dp g r e visited out h)
  then show ?case by (auto intro: dump_graph_dump_loop.domintros)
qed


definition stopped :: "graph \<Rightarrow> vertex \<Rightarrow> bool" where
  "stopped g self \<longleftrightarrow>
     length (edges self) \<le> iv self
     \<or> (0 < iv self \<and> Graph_get_edge (edges self ! (iv self - 1)) g = PNone)"

lemma get_edge_None_stopped:
  "call_vertex (Vertex_get_edge g) r h = (PNone, h') \<Longrightarrow> stopped g (vheap h' r)"
  by (auto simp: call_vertex_def Vertex_get_edge_def stopped_def Let_def split: if_splits)

lemma get_first_edge_None_stopped:
  "call_vertex (Vertex_get_first_edge g) r h = (PNone, h') \<Longrightarrow> stopped g (vheap h' r)"
  by (auto simp: call_vertex_def Vertex_get_first_edge_def Vertex_get_edge_def stopped_def Let_def
      split: if_splits)

lemma call_vertex_other:
  "call_vertex m r h = (a, h') \<Longrightarrow> r' \<noteq> r \<Longrightarrow> vheap h' r' = vheap h r'"
  by (auto simp: call_vertex_def split: prod.splits)

lemma dump_stopped:
  "dump_graph dp g v vis out h = Inr (h', vis', out') \<Longrightarrow>
     \<exists>new. out' = out @ v # new
       \<and> (\<forall>r'. PVertex r' \<in> set (v # new) \<or> stopped g (vheap h r') \<longrightarrow> stopped g (vheap h' r'))"
  "dump_loop dp g r e vis out h = Inr (h', vis', out') \<Longrightarrow> (e = PNone \<longrightarrow> stopped g (vheap h r)) \<Longrightarrow>
     \<exists>new. out' = out @ new
       \<and> (\<forall>r'. r' = r \<or> PVertex r' \<in> set new \<or> stopped g (vheap h r') \<longrightarrow> stopped g (vheap h' r'))"
proof (induct dp g v vis out h and dp g r e vis out h arbitrary: h' vis' out' and h' vis' out'
    rule: dump_graph_dump_loop.induct)
  case (1 dp g v visited out h)
  from "1.prems" obtain r where v: "v = PVertex r" and dz: "dp \<noteq> 0"
    by (auto split: pyval.splits if_splits)
  obtain e h1 where c: "call_vertex (Vertex_get_first_edge g) r h = (e, h1)"
    by (cases "call_vertex (Vertex_get_first_edge g) r h")
  from "1.prems" v dz c have l: "dump_loop dp g r e visited (out @ [PVertex r]) h1 = Inr (h', vis', out')"
    by simp
  have pre: "e = PNone \<longrightarrow> stopped g (vheap h1 r)"
    using get_first_edge_None_stopped c by blast
  from "1.hyps"[OF v dz c[symmetric] l pre] obtain new where
    n: "out' = (out @ [PVertex r]) @ new"
    and s: "\<forall>r'. r' = r \<or> PVertex r' \<in> set new \<or> stopped g (vheap h1 r') \<longrightarrow> stopped g (vheap h' r')"
    by blast
  have "\<forall>r'. PVertex r' \<in> set (PVertex r # new) \<or> stopped g (vheap h r') \<longrightarrow> stopped g (vheap h' r')"
    using s call_vertex_other[OF c] by (metis pyval.inject(7) set_ConsD)
  with n v show ?case by (intro exI[of _ new]) simp
next
  case (2 dp g r e visited out h)
  show ?case
  proof (cases e)
    case PNone
    with "2.prems" show ?thesis by auto
  next
    case (PEdge er)
    show ?thesis
    proof (cases "EdgeBase_get_id (eheap h er) \<in> set visited")
      case True
      obtain e' h3 where c: "call_vertex (Vertex_get_edge g) r h = (e', h3)"
        by (cases "call_vertex (Vertex_get_edge g) r h")
      from "2.prems"(1) PEdge True c
      have l: "dump_loop dp g r e' visited out h3 = Inr (h', vis', out')"
        by simp
      have pre: "e' = PNone \<longrightarrow> stopped g (vheap h3 r)"
        using get_edge_None_stopped c by blast
      from "2.hyps"(3)[OF PEdge _ c[symmetric] l pre] True obtain new where
        n: "out' = out @ new"
        and s: "\<forall>r'. r' = r \<or> PVertex r' \<in> set new \<or> stopped g (vheap h3 r') \<longrightarrow> stopped g (vheap h' r')"
        by blast
      have "\<forall>r'. r' = r \<or> PVertex r' \<in> set new \<or> stopped g (vheap h r') \<longrightarrow> stopped g (vheap h' r')"
        using s call_vertex_other[OF c] by metis
      with n show ?thesis by blast
    next
      case False
      from "2.prems"(1) PEdge False obtain h2 vis2 out2 where
        d: "dump_graph (dp - 1) g (Edge_get_vertex2 g (eheap h er))
             (visited @ [EdgeBase_get_id (eheap h er)]) (out @ [PEdge er]) h = Inr (h2, vis2, out2)"
        by (auto split: sum.splits)
      obtain e' h3 where c: "call_vertex (Vertex_get_edge g) r h2 = (e', h3)"
        by (cases "call_vertex (Vertex_get_edge g) r h2")
      from "2.prems"(1) PEdge False d c
      have l: "dump_loop dp g r e' vis2 out2 h3 = Inr (h', vis', out')"
        by simp
      have pre: "e' = PNone \<longrightarrow> stopped g (vheap h3 r)"
        using get_edge_None_stopped c by blast
      from "2.hyps"(1)[OF PEdge False d] obtain new0 where
        n0: "out2 = (out @ [PEdge er]) @ Edge_get_vertex2 g (eheap h er) # new0"
        and s0: "\<forall>r'. PVertex r' \<in> set (Edge_get_vertex2 g (eheap h er) # new0) \<or> stopped g (vheap h r')
                 \<longrightarrow> stopped g (vheap h2 r')"
        by blast
      define new1 where "new1 = Edge_get_vertex2 g (eheap h er) # new0"
      from n0 s0 have "out2 = (out @ [PEdge er]) @ new1
         \<and> (\<forall>r'. PVertex r' \<in> set new1 \<or> stopped g (vheap h r') \<longrightarrow> stopped g (vheap h2 r'))"
        by (simp add: new1_def)
      then obtain
        n1: "out2 = (out @ [PEdge er]) @ new1"
        and s1: "\<forall>r'. PVertex r' \<in> set new1 \<or> stopped g (vheap h r') \<longrightarrow> stopped g (vheap h2 r')"
        by blast
      from "2.hyps"(2)[OF PEdge False d refl refl c[symmetric] l pre] obtain new2 where
        n2: "out' = out2 @ new2"
        and s2: "\<forall>r'. r' = r \<or> PVertex r' \<in> set new2 \<or> stopped g (vheap h3 r') \<longrightarrow> stopped g (vheap h' r')"
        by blast
      have n: "out' = out @ (PEdge er # new1 @ new2)"
        using n1 n2 by simp
      have "\<forall>r'. r' = r \<or> PVertex r' \<in> set (PEdge er # new1 @ new2) \<or> stopped g (vheap h r')
              \<longrightarrow> stopped g (vheap h' r')"
      proof (intro allI impI)
        fix r'
        assume a: "r' = r \<or> PVertex r' \<in> set (PEdge er # new1 @ new2) \<or> stopped g (vheap h r')"
        show "stopped g (vheap h' r')"
        proof (cases "r' = r \<or> PVertex r' \<in> set new2")
          case True
          with s2 show ?thesis by blast
        next
          case False
          with a have "PVertex r' \<in> set new1 \<or> stopped g (vheap h r')" by auto
          with s1 have "stopped g (vheap h2 r')" by blast
          with False call_vertex_other[OF c, of r'] have "stopped g (vheap h3 r')" by simp
          with s2 show ?thesis by blast
        qed
      qed
      with n show ?thesis by blast
    qed
  qed (use "2.prems" in \<open>simp_all\<close>)
qed

lemma dump_Inl:
  "dump_graph dp g v vis out h = Inl e \<Longrightarrow> e = AttributeError \<or> e = RecursionError"
  "dump_loop dp g r ed vis out h = Inl e \<Longrightarrow> e = AttributeError \<or> e = RecursionError"
proof (induct dp g v vis out h and dp g r ed vis out h rule: dump_graph_dump_loop.induct)
  case (1 dp g v visited out h)
  show ?case
  proof (cases v)
    case (PVertex r)
    show ?thesis
    proof (cases "dp = 0")
      case True
      with "1.prems" PVertex show ?thesis by simp
    next
      case False
      obtain e1 h1 where c: "call_vertex (Vertex_get_first_edge g) r h = (e1, h1)"
        by (cases "call_vertex (Vertex_get_first_edge g) r h")
      from "1.prems" PVertex False c have "dump_loop dp g r e1 visited (out @ [PVertex r]) h1 = Inl e"
        by simp
      from "1.hyps"[OF PVertex False c[symmetric] this] show ?thesis .
    qed
  qed (use "1.prems" in simp_all)
next
  case (2 dp g r ed visited out h)
  show ?case
  proof (cases ed)
    case (PEdge er)
    show ?thesis
    proof (cases "EdgeBase_get_id (eheap h er) \<in> set visited")
      case True
      obtain e' h3 where c: "call_vertex (Vertex_get_edge g) r h = (e', h3)"
        by (cases "call_vertex (Vertex_get_edge g) r h")
      from "2.prems" PEdge True c have "dump_loop dp g r e' visited out h3 = Inl e"
        by simp
      from "2.hyps"(3)[OF PEdge _ c[symmetric] this] True show ?thesis by simp
    next
      case False
      show ?thesis
      proof (cases "dump_graph (dp - 1) g (Edge_get_vertex2 g (eheap h er))
             (visited @ [EdgeBase_get_id (eheap h er)]) (out @ [PEdge er]) h")
        case (Inl x)
        with "2.prems" PEdge False have "x = e" by simp
        with "2.hyps"(1)[OF PEdge False] Inl show ?thesis by simp
      next
        case (Inr res)
        obtain h2 vis2 out2 where res: "res = (h2, vis2, out2)" by (cases res)
        obtain e' h3 where c: "call_vertex (Vertex_get_edge g) r h2 = (e', h3)"
          by (cases "call_vertex (Vertex_get_edge g) r h2")
        from "2.prems" PEdge False Inr res c have "dump_loop dp g r e' vis2 out2 h3 = Inl e"
          by simp
        from "2.hyps"(2)[OF PEdge False Inr[unfolded res] refl refl c[symmetric] this]
        show ?thesis .
      qed
    qed
  qed (use "2.prems" in simp_all)
qed

subsection \<open>When a dump returns normally\<close>

text \<open>
  A dump raises AttributeError only when it follows an edge whose second vertex is not
  registered in the graph, and RecursionError only when the depth it is given does not
  exceed the number of edges of the graph.
\<close>

definition ends_registered :: "graph \<Rightarrow> heap \<Rightarrow> bool" where
  "ends_registered g h \<longleftrightarrow>
     list_all (\<lambda>p. Edge_get_vertex2 g (eheap h (snd p)) \<noteq> PNone) (gedges g)"

definition edge_of :: "graph \<Rightarrow> pyval \<Rightarrow> bool" where
  "edge_of g e \<longleftrightarrow> e = PNone \<or> (\<exists>er. e = PEdge er \<and> er \<in> snd ` set (gedges g))"

lemma Graph_get_edge_of: "edge_of g (Graph_get_edge k g)"
  by (auto simp: edge_of_def Graph_get_edge_def split: option.splits dest!: map_of_SomeD
      intro!: image_eqI[where x="(k, er)" for er])

lemma get_edge_of:
  "call_vertex (Vertex_get_edge g) r h = (e, h') \<Longrightarrow> edge_of g e"
  using Graph_get_edge_of[of g]
  by (auto simp: call_vertex_def Vertex_get_edge_def Let_def edge_of_def split: if_splits)

lemma get_first_edge_of:
  "call_vertex (Vertex_get_first_edge g) r h = (e, h') \<Longrightarrow> edge_of g e"
  using Graph_get_edge_of[of g]
  by (auto simp: call_vertex_def Vertex_get_first_edge_def Vertex_get_edge_def Let_def edge_of_def
      split: if_splits)

lemma ends_registered_cursor_only:
  "cursor_only h h' \<Longrightarrow> ends_registered g h' = ends_registered g h"
  by (simp add: ends_registered_def cursor_only_def)

lemma ends_registered_vertex2:
  "ends_registered g h \<Longrightarrow> er \<in> snd ` set (gedges g) \<Longrightarrow>
     \<exists>r2. Edge_get_vertex2 g (eheap h er) = PVertex r2"
  by (auto simp: ends_registered_def list_all_iff Edge_get_vertex2_def Graph_get_vertex_def
      split: option.splits)

lemma dump_no_AttributeError:
  "ends_registered g h \<Longrightarrow> \<exists>r. v = PVertex r \<Longrightarrow>
     dump_graph dp g v vis out h \<noteq> Inl AttributeError"
  "ends_registered g h \<Longrightarrow> edge_of g e \<Longrightarrow>
     dump_loop dp g r e vis out h \<noteq> Inl AttributeError"
proof (induct dp g v vis out h and dp g r e vis out h rule: dump_graph_dump_loop.induct)
  case (1 dp g v visited out h)
  from "1.prems"(2) obtain r where v: "v = PVertex r" by blast
  show ?case
  proof (cases "dp = 0")
    case True
    with v show ?thesis by simp
  next
    case False
    obtain e h1 where c: "call_vertex (Vertex_get_first_edge g) r h = (e, h1)"
      by (cases "call_vertex (Vertex_get_first_edge g) r h")
    have w: "ends_registered g h1"
      using "1.prems"(1) ends_registered_cursor_only[OF call_get_first_edge_cursor_only[OF c]]
      by simp
    from "1.hyps"[OF v False c[symmetric] w get_first_edge_of[OF c]] v False c
    show ?thesis by simp
  qed
next
  case (2 dp g r e visited out h)
  show ?case
  proof (cases e)
    case PNone
    then show ?thesis by simp
  next
    case (PEdge er)
    with "2.prems"(2) have reg: "er \<in> snd ` set (gedges g)"
      by (simp add: edge_of_def)
    show ?thesis
    proof (cases "EdgeBase_get_id (eheap h er) \<in> set visited")
      case True
      obtain e' h3 where c: "call_vertex (Vertex_get_edge g) r h = (e', h3)"
        by (cases "call_vertex (Vertex_get_edge g) r h")
      have w: "ends_registered g h3"
        using "2.prems"(1) ends_registered_cursor_only[OF call_get_edge_cursor_only[OF c]]
        by simp
      from "2.hyps"(3)[OF PEdge _ c[symmetric] w get_edge_of[OF c]] True PEdge c
      show ?thesis by simp
    next
      case False
      from ends_registered_vertex2[OF "2.prems"(1) reg]
      have v2: "\<exists>r2. Edge_get_vertex2 g (eheap h er) = PVertex r2" .
      note ih = "2.hyps"(1)[OF PEdge False "2.prems"(1) v2]
      show ?thesis
      proof (cases "dump_graph (dp - 1) g (Edge_get_vertex2 g (eheap h er))
             (visited @ [EdgeBase_get_id (eheap h er)]) (out @ [PEdge er]) h")
        case (Inl x)
        with ih PEdge False show ?thesis by simp
      next
        case (Inr res)
        obtain h2 vis2 out2 where res: "res = (h2, vis2, out2)" by (cases res)
        note d = Inr[unfolded res]
        obtain e' h3 where c: "call_vertex (Vertex_get_edge g) r h2 = (e', h3)"
          by (cases "call_vertex (Vertex_get_edge g) r h2")
        from dump_partial(1)[OF all_dom(1) d] have co: "cursor_only h h2" by simp
        have w: "ends_registered g h3"
          using "2.prems"(1) ends_registered_cursor_only[OF co]
            ends_registered_cursor_only[OF call_get_edge_cursor_only[OF c]]
          by simp
        from "2.hyps"(2)[OF PEdge False d refl refl c[symmetric] w get_edge_of[OF c]]
          PEdge False d c
        show ?thesis by simp
      qed
    qed
  qed (use "2.prems"(2) in \<open>simp_all add: edge_of_def\<close>)
qed

lemma dump_no_RecursionError:
  "card (registered_ids g h - set vis) < dp \<Longrightarrow>
     dump_graph dp g v vis out h \<noteq> Inl RecursionError"
  "card ((registered_ids g h \<union> pending_ids h e) - set vis) < dp \<Longrightarrow>
     dump_loop dp g r e vis out h \<noteq> Inl RecursionError"
proof (induct dp g v vis out h and dp g r e vis out h rule: dump_graph_dump_loop.induct)
  case (1 dp g v visited out h)
  show ?case
  proof (cases v)
    case (PVertex r)
    from "1.prems" have dz: "dp \<noteq> 0" by simp
    obtain e h1 where c: "call_vertex (Vertex_get_first_edge g) r h = (e, h1)"
      by (cases "call_vertex (Vertex_get_first_edge g) r h")
    have "registered_ids g h1 \<union> pending_ids h1 e = registered_ids g h"
      using get_first_edge_pending[OF c]
        registered_ids_cursor_only[OF call_get_first_edge_cursor_only[OF c]]
      by auto
    with "1.prems" have "card ((registered_ids g h1 \<union> pending_ids h1 e) - set visited) < dp"
      by simp
    from "1.hyps"[OF PVertex dz c[symmetric] this] PVertex dz c show ?thesis by simp
  qed simp_all
next
  case (2 dp g r e visited out h)
  have fin: "finite ((registered_ids g h \<union> pending_ids h e) - set visited)"
    by (auto simp: finite_registered_ids pending_ids_def split: pyval.splits)
  show ?case
  proof (cases e)
    case (PEdge er)
    show ?thesis
    proof (cases "EdgeBase_get_id (eheap h er) \<in> set visited")
      case True
      obtain e' h3 where c: "call_vertex (Vertex_get_edge g) r h = (e', h3)"
        by (cases "call_vertex (Vertex_get_edge g) r h")
      have "registered_ids g h3 \<union> pending_ids h3 e' = registered_ids g h"
        using get_edge_pending[OF c] registered_ids_cursor_only[OF call_get_edge_cursor_only[OF c]]
        by auto
      moreover have "card (registered_ids g h - set visited)
          \<le> card ((registered_ids g h \<union> pending_ids h e) - set visited)"
        by (rule card_mono[OF fin]) auto
      ultimately have "card ((registered_ids g h3 \<union> pending_ids h3 e') - set visited) < dp"
        using "2.prems" by simp
      from "2.hyps"(3)[OF PEdge _ c[symmetric] this] True PEdge c show ?thesis by simp
    next
      case False
      have "registered_ids g h - set (visited @ [EdgeBase_get_id (eheap h er)])
              \<subset> (registered_ids g h \<union> pending_ids h e) - set visited"
        using PEdge False by (auto simp: pending_ids_def)
      then have lt: "card (registered_ids g h - set (visited @ [EdgeBase_get_id (eheap h er)]))
              < card ((registered_ids g h \<union> pending_ids h e) - set visited)"
        by (rule psubset_card_mono[OF fin])
      with "2.prems"
      have "card (registered_ids g h - set (visited @ [EdgeBase_get_id (eheap h er)])) < dp - 1"
        by simp
      note ih = "2.hyps"(1)[OF PEdge False this]
      show ?thesis
      proof (cases "dump_graph (dp - 1) g (Edge_get_vertex2 g (eheap h er))
             (visited @ [EdgeBase_get_id (eheap h er)]) (out @ [PEdge er]) h")
        case (Inl x)
        with ih PEdge False show ?thesis by simp
      next
        case (Inr res)
        obtain h2 vis2 out2 where res: "res = (h2, vis2, out2)" by (cases res)
        note d = Inr[unfolded res]
        obtain e' h3 where c: "call_vertex (Vertex_get_edge g) r h2 = (e', h3)"
          by (cases "call_vertex (Vertex_get_edge g) r h2")
        from dump_partial(1)[OF all_dom(1) d] have co: "cursor_only h h2"
          and sub: "set (visited @ [EdgeBase_get_id (eheap h er)]) \<subseteq> set vis2" by simp_all
        have "registered_ids g h3 \<union> pending_ids h3 e' = registered_ids g h"
          using get_edge_pending[OF c] registered_ids_cursor_only[OF call_get_edge_cursor_only[OF c]]
            registered_ids_cursor_only[OF co]
          by auto
        moreover have "card (registered_ids g h - set vis2)
            \<le> card ((registered_ids g h \<union> pending_ids h e) - set visited)"
          using sub by (intro card_mono[OF fin]) auto
        ultimately have "card ((registered_ids g h3 \<union> pending_ids h3 e') - set vis2) < dp"
          using "2.prems" by simp
        from "2.hyps"(2)[OF PEdge False d refl refl c[symmetric] this] PEdge False d c
        show ?thesis by simp
      qed
    qed
  qed simp_all
qed

lemma card_registered_ids: "card (registered_ids g h - set vis) \<le> length (gedges g)"
proof -
  have "card (registered_ids g h - set vis) \<le> card (registered_ids g h)"
    by (intro card_mono finite_registered_ids) auto
  also have "\<dots> \<le> card (set (gedges g))"
    unfolding registered_ids_def by (intro card_image_le) simp
  also have "\<dots> \<le> length (gedges g)"
    by (rule card_length)
  finally show ?thesis .
qed

lemma stopped_changes:
  "cursor_only h h' \<Longrightarrow> stopped g (vheap h' r) \<Longrightarrow>
     stopped g (vheap h r) \<or> iv (vheap h' r) \<noteq> iv (vheap h r)"
proof (cases "iv (vheap h' r) = iv (vheap h r)")
  case True
  assume "cursor_only h h'" and s: "stopped g (vheap h' r)"
  then have "vheap h' r = (vheap h r)\<lparr>iv := iv (vheap h' r)\<rparr>"
    by (simp add: cursor_only_def)
  with True have "vheap h' r = vheap h r" by simp
  with s show ?thesis by simp
qed simp

subsection \<open>What a dump touches\<close>

text \<open>
  The ids of the edges among the objects printed, in the order of printing; and the
  exact frame of a dump: the cursor of a vertex that is not printed is not written, and
  the ids appended to \<^verbatim>\<open>visited\<close> are those of the edges printed.
\<close>

definition printed_ids :: "heap \<Rightarrow> pyval list \<Rightarrow> string list" where
  "printed_ids h ps =
     concat (map (\<lambda>p. case p of PEdge e \<Rightarrow> [EdgeBase_get_id (eheap h e)] | _ \<Rightarrow> []) ps)"

lemma printed_ids_simps:
  "printed_ids h [] = []"
  "printed_ids h (PEdge e # ps) = EdgeBase_get_id (eheap h e) # printed_ids h ps"
  "printed_ids h (PVertex r # ps) = printed_ids h ps"
  "printed_ids h (PNone # ps) = printed_ids h ps"
  "printed_ids h (ps @ qs) = printed_ids h ps @ printed_ids h qs"
  by (simp_all add: printed_ids_def)

lemma printed_ids_cursor_only: "cursor_only h h' \<Longrightarrow> printed_ids h' ps = printed_ids h ps"
  by (simp add: printed_ids_def cursor_only_def cong: pyval.case_cong)

lemma Edge_get_vertex2_cases:
  "Edge_get_vertex2 g e = PNone \<or> (\<exists>r. Edge_get_vertex2 g e = PVertex r)"
  by (simp add: Edge_get_vertex2_def Graph_get_vertex_def split: option.splits)

lemma dump_touch:
  "dump_graph dp g v vis out h = Inr (h', vis', out') \<Longrightarrow>
     \<exists>new. out' = out @ v # new
       \<and> (\<forall>r'. PVertex r' \<in> set (v # new) \<or> vheap h' r' = vheap h r')
       \<and> vis' = vis @ printed_ids h new"
  "dump_loop dp g r e vis out h = Inr (h', vis', out') \<Longrightarrow>
     \<exists>new. out' = out @ new
       \<and> (\<forall>r'. r' = r \<or> PVertex r' \<in> set new \<or> vheap h' r' = vheap h r')
       \<and> vis' = vis @ printed_ids h new"
proof (induct dp g v vis out h and dp g r e vis out h arbitrary: h' vis' out' and h' vis' out'
    rule: dump_graph_dump_loop.induct)
  case (1 dp g v visited out h)
  from "1.prems" obtain r where v: "v = PVertex r" and dz: "dp \<noteq> 0"
    by (auto split: pyval.splits if_splits)
  obtain e h1 where c: "call_vertex (Vertex_get_first_edge g) r h = (e, h1)"
    by (cases "call_vertex (Vertex_get_first_edge g) r h")
  from "1.prems" v dz c have l: "dump_loop dp g r e visited (out @ [PVertex r]) h1 = Inr (h', vis', out')"
    by simp
  from "1.hyps"[OF v dz c[symmetric] l] obtain new where
    n: "out' = (out @ [PVertex r]) @ new"
    and s: "\<forall>r'. r' = r \<or> PVertex r' \<in> set new \<or> vheap h' r' = vheap h1 r'"
    and i: "vis' = visited @ printed_ids h1 new"
    by blast
  have "\<forall>r'. PVertex r' \<in> set (PVertex r # new) \<or> vheap h' r' = vheap h r'"
    using s call_vertex_other[OF c] by (metis list.set_intros(1) list.set_intros(2))
  moreover have "vis' = visited @ printed_ids h new"
    using i printed_ids_cursor_only[OF call_get_first_edge_cursor_only[OF c]] by simp
  ultimately show ?case using n v by (intro exI[of _ new]) simp
next
  case (2 dp g r e visited out h)
  show ?case
  proof (cases e)
    case PNone
    with "2.prems" show ?thesis by (auto simp: printed_ids_simps)
  next
    case (PEdge er)
    show ?thesis
    proof (cases "EdgeBase_get_id (eheap h er) \<in> set visited")
      case True
      obtain e' h3 where c: "call_vertex (Vertex_get_edge g) r h = (e', h3)"
        by (cases "call_vertex (Vertex_get_edge g) r h")
      from "2.prems"(1) PEdge True c
      have l: "dump_loop dp g r e' visited out h3 = Inr (h', vis', out')"
        by simp
      from "2.hyps"(3)[OF PEdge _ c[symmetric] l] True obtain new where
        n: "out' = out @ new"
        and s: "\<forall>r'. r' = r \<or> PVertex r' \<in> set new \<or> vheap h' r' = vheap h3 r'"
        and i: "vis' = visited @ printed_ids h3 new"
        by blast
      have "\<forall>r'. r' = r \<or> PVertex r' \<in> set new \<or> vheap h' r' = vheap h r'"
        using s call_vertex_other[OF c] by metis
      moreover have "vis' = visited @ printed_ids h new"
        using i printed_ids_cursor_only[OF call_get_edge_cursor_only[OF c]] by simp
      ultimately show ?thesis using n by blast
    next
      case False
      from "2.prems"(1) PEdge False obtain h2 vis2 out2 where
        d: "dump_graph (dp - 1) g (Edge_get_vertex2 g (eheap h er))
             (visited @ [EdgeBase_get_id (eheap h er)]) (out @ [PEdge er]) h = Inr (h2, vis2, out2)"
        by (auto split: sum.splits)
      obtain e' h3 where c: "call_vertex (Vertex_get_edge g) r h2 = (e', h3)"
        by (cases "call_vertex (Vertex_get_edge g) r h2")
      from "2.prems"(1) PEdge False d c
      have l: "dump_loop dp g r e' vis2 out2 h3 = Inr (h', vis', out')"
        by simp
      from dump_partial(1)[OF all_dom(1) d] have co: "cursor_only h h2" by simp
      from d obtain r2 where v2: "Edge_get_vertex2 g (eheap h er) = PVertex r2"
        by (auto split: pyval.splits)
      from "2.hyps"(1)[OF PEdge False d] obtain new0 where
        n0: "out2 = (out @ [PEdge er]) @ PVertex r2 # new0"
        and s0: "\<forall>r'. PVertex r' \<in> set (PVertex r2 # new0) \<or> vheap h2 r' = vheap h r'"
        and i0: "vis2 = (visited @ [EdgeBase_get_id (eheap h er)]) @ printed_ids h new0"
        unfolding v2 by blast
      from "2.hyps"(2)[OF PEdge False d refl refl c[symmetric] l] obtain new2 where
        n2: "out' = out2 @ new2"
        and s2: "\<forall>r'. r' = r \<or> PVertex r' \<in> set new2 \<or> vheap h' r' = vheap h3 r'"
        and i2: "vis' = vis2 @ printed_ids h3 new2"
        by blast
      let ?new = "PEdge er # PVertex r2 # new0 @ new2"
      have n: "out' = out @ ?new"
        using n0 n2 by simp
      have p3: "printed_ids h3 new2 = printed_ids h new2"
        using printed_ids_cursor_only[OF call_get_edge_cursor_only[OF c]]
          printed_ids_cursor_only[OF co] by simp
      have i: "vis' = visited @ printed_ids h ?new"
        using i0 i2 p3 by (simp add: printed_ids_simps)
      have "\<forall>r'. r' = r \<or> PVertex r' \<in> set ?new \<or> vheap h' r' = vheap h r'"
      proof (intro allI)
        fix r'
        show "r' = r \<or> PVertex r' \<in> set ?new \<or> vheap h' r' = vheap h r'"
        proof (cases "r' = r \<or> PVertex r' \<in> set ?new")
          case True
          then show ?thesis by blast
        next
          case False
          then have a: "r' \<noteq> r" "PVertex r' \<notin> set new2" "PVertex r' \<notin> set (PVertex r2 # new0)"
            by auto
          from s2 a have "vheap h' r' = vheap h3 r'" by blast
          also from call_vertex_other[OF c a(1)] have "\<dots> = vheap h2 r'" .
          also from s0 a(3) have "\<dots> = vheap h r'" by blast
          finally show ?thesis by simp
        qed
      qed
      with n i show ?thesis by blast
    qed
  qed (use "2.prems" in \<open>simp_all\<close>)
qed

subsection \<open>What a dump has walked\<close>

text \<open>
  An adjacency entry is done when the edge the graph holds for it is in the list
  \<^verbatim>\<open>visited\<close>, or when the graph holds none. After a dump every entry that the cursor of a
  printed vertex has passed is done.
\<close>

definition entry_done :: "graph \<Rightarrow> heap \<Rightarrow> string list \<Rightarrow> string \<Rightarrow> bool" where
  "entry_done g h vis k =
     (case Graph_get_edge k g of
        PEdge er \<Rightarrow> EdgeBase_get_id (eheap h er) \<in> set vis
      | _ \<Rightarrow> True)"

definition passed_done :: "graph \<Rightarrow> heap \<Rightarrow> string list \<Rightarrow> ref \<Rightarrow> bool" where
  "passed_done g h vis r =
     list_all (entry_done g h vis) (take (iv (vheap h r)) (edges (vheap h r)))"

text \<open>The state in the loop: \<open>e\<close> is what the last call of \<^verbatim>\<open>get_edge\<close> has returned.\<close>

definition fetched :: "graph \<Rightarrow> heap \<Rightarrow> string list \<Rightarrow> ref \<Rightarrow> pyval \<Rightarrow> bool" where
  "fetched g h vis r e \<longleftrightarrow>
     (if e = PNone then passed_done g h vis r
      else list_all (entry_done g h vis) (take (iv (vheap h r) - 1) (edges (vheap h r)))
           \<and> 0 < iv (vheap h r) \<and> iv (vheap h r) \<le> length (edges (vheap h r))
           \<and> Graph_get_edge (edges (vheap h r) ! (iv (vheap h r) - 1)) g = e)"

lemma cursor_only_eheap: "cursor_only h h' \<Longrightarrow> eheap h' = eheap h"
  by (simp add: cursor_only_def)

lemma entry_done_mono:
  "set vis \<subseteq> set vis' \<Longrightarrow> entry_done g h vis k \<Longrightarrow> entry_done g h vis' k"
  by (auto simp: entry_done_def split: pyval.splits)

lemma entry_done_eheap: "eheap h' = eheap h \<Longrightarrow> entry_done g h' vis = entry_done g h vis"
  by (intro ext) (simp add: entry_done_def cong: pyval.case_cong)

lemma passed_done_mono:
  "set vis \<subseteq> set vis' \<Longrightarrow> passed_done g h vis r \<Longrightarrow> passed_done g h vis' r"
  using entry_done_mono[of vis vis' g h] by (auto simp: passed_done_def list_all_iff)

lemma passed_done_same:
  "vheap h' r = vheap h r \<Longrightarrow> eheap h' = eheap h \<Longrightarrow>
     passed_done g h' vis r = passed_done g h vis r"
  using entry_done_eheap[of h' h g vis] by (simp add: passed_done_def)

lemma take_Suc_done:
  "n < length xs \<Longrightarrow> list_all P (take (Suc n) xs) \<longleftrightarrow> list_all P (take n xs) \<and> P (xs ! n)"
  by (simp add: take_Suc_conv_app_nth)

lemma get_edge_fetched:
  assumes "passed_done g h vis r" and "call_vertex (Vertex_get_edge g) r h = (e, h')"
  shows "fetched g h' vis r e"
proof (cases "length (edges (vheap h r)) \<le> iv (vheap h r)")
  case True
  with assms(2) have "e = PNone" "h' = h"
    by (auto simp: call_vertex_def Vertex_get_edge_def)
  with assms(1) show ?thesis by (simp add: fetched_def)
next
  case False
  then have lt: "iv (vheap h r) < length (edges (vheap h r))" by simp
  from assms(2) False have e: "e = Graph_get_edge (edges (vheap h r) ! iv (vheap h r)) g"
    and h': "vheap h' r = (vheap h r)\<lparr>iv := Suc (iv (vheap h r))\<rparr>" "eheap h' = eheap h"
    by (auto simp: call_vertex_def Vertex_get_edge_def Let_def)
  from assms(1) have p: "list_all (entry_done g h' vis) (take (iv (vheap h r)) (edges (vheap h r)))"
    by (simp add: passed_done_def entry_done_eheap[OF h'(2)])
  show ?thesis
  proof (cases "e = PNone")
    case True
    with e have "entry_done g h' vis (edges (vheap h r) ! iv (vheap h r))"
      by (simp add: entry_done_def)
    with p lt True h' show ?thesis
      by (simp add: fetched_def passed_done_def take_Suc_done)
  next
    case False
    with p lt e h' show ?thesis
      by (simp add: fetched_def)
  qed
qed

lemma get_first_edge_fetched:
  assumes "call_vertex (Vertex_get_first_edge g) r h = (e, h')"
  shows "fetched g h' vis r e"
proof -
  let ?h0 = "h\<lparr>vheap := (vheap h)(r := (vheap h r)\<lparr>iv := 0\<rparr>)\<rparr>"
  have "passed_done g ?h0 vis r"
    by (simp add: passed_done_def)
  moreover from assms have "call_vertex (Vertex_get_edge g) r ?h0 = (e, h')"
    by (auto simp: call_vertex_def Vertex_get_first_edge_def split: prod.splits)
  ultimately show ?thesis by (rule get_edge_fetched)
qed

lemma fetched_visited:
  assumes "fetched g h vis r (PEdge er)" and "set vis \<subseteq> set vis'"
    and "EdgeBase_get_id (eheap h er) \<in> set vis'"
  shows "passed_done g h vis' r"
proof -
  from assms(1) have a: "list_all (entry_done g h vis) (take (iv (vheap h r) - 1) (edges (vheap h r)))"
    and b: "0 < iv (vheap h r)" "iv (vheap h r) \<le> length (edges (vheap h r))"
    and c: "Graph_get_edge (edges (vheap h r) ! (iv (vheap h r) - 1)) g = PEdge er"
    by (simp_all add: fetched_def)
  from b obtain n where n: "iv (vheap h r) = Suc n" "n < length (edges (vheap h r))"
    by (cases "iv (vheap h r)") auto
  from a assms(2) have "list_all (entry_done g h vis') (take n (edges (vheap h r)))"
    using n entry_done_mono[of vis vis' g h] by (auto simp: list_all_iff)
  moreover from c n assms(3) have "entry_done g h vis' (edges (vheap h r) ! n)"
    by (simp add: entry_done_def)
  ultimately show ?thesis
    using n by (simp add: passed_done_def take_Suc_done)
qed

lemma dump_passed:
  "dump_graph dp g v vis out h = Inr (h', vis', out') \<Longrightarrow>
     \<exists>new. out' = out @ v # new
       \<and> (\<forall>r'. PVertex r' \<in> set (v # new) \<or> passed_done g h vis r' \<longrightarrow> passed_done g h' vis' r')"
  "dump_loop dp g r e vis out h = Inr (h', vis', out') \<Longrightarrow> fetched g h vis r e \<Longrightarrow>
     \<exists>new. out' = out @ new
       \<and> (\<forall>r'. r' = r \<or> PVertex r' \<in> set new \<or> passed_done g h vis r' \<longrightarrow> passed_done g h' vis' r')"
proof (induct dp g v vis out h and dp g r e vis out h arbitrary: h' vis' out' and h' vis' out'
    rule: dump_graph_dump_loop.induct)
  case (1 dp g v visited out h)
  from "1.prems" obtain r where v: "v = PVertex r" and dz: "dp \<noteq> 0"
    by (auto split: pyval.splits if_splits)
  obtain e h1 where c: "call_vertex (Vertex_get_first_edge g) r h = (e, h1)"
    by (cases "call_vertex (Vertex_get_first_edge g) r h")
  from "1.prems" v dz c have l: "dump_loop dp g r e visited (out @ [PVertex r]) h1 = Inr (h', vis', out')"
    by simp
  note co = call_get_first_edge_cursor_only[OF c]
  from "1.hyps"[OF v dz c[symmetric] l get_first_edge_fetched[OF c]] obtain new where
    n: "out' = (out @ [PVertex r]) @ new"
    and s: "\<forall>r'. r' = r \<or> PVertex r' \<in> set new \<or> passed_done g h1 visited r'
              \<longrightarrow> passed_done g h' vis' r'"
    by blast
  have "\<forall>r'. PVertex r' \<in> set (PVertex r # new) \<or> passed_done g h visited r'
          \<longrightarrow> passed_done g h' vis' r'"
  proof (intro allI impI)
    fix r'
    assume a: "PVertex r' \<in> set (PVertex r # new) \<or> passed_done g h visited r'"
    show "passed_done g h' vis' r'"
    proof (cases "r' = r \<or> PVertex r' \<in> set new")
      case True
      with s show ?thesis by blast
    next
      case False
      with a have "passed_done g h visited r'" by auto
      with False call_vertex_other[OF c, of r'] cursor_only_eheap[OF co]
        passed_done_same[where h' = h1 and h = h and r = r' and g = g and vis = visited]
      have "passed_done g h1 visited r'" by simp
      with s show ?thesis by blast
    qed
  qed
  with n v show ?case by (intro exI[of _ new]) simp
next
  case (2 dp g r e visited out h)
  show ?case
  proof (cases e)
    case PNone
    with "2.prems" show ?thesis by (auto simp: fetched_def)
  next
    case (PEdge er)
    show ?thesis
    proof (cases "EdgeBase_get_id (eheap h er) \<in> set visited")
      case True
      obtain e' h3 where c: "call_vertex (Vertex_get_edge g) r h = (e', h3)"
        by (cases "call_vertex (Vertex_get_edge g) r h")
      note co = call_get_edge_cursor_only[OF c]
      from "2.prems"(1) PEdge True c
      have l: "dump_loop dp g r e' visited out h3 = Inr (h', vis', out')"
        by simp
      from fetched_visited[OF "2.prems"(2)[unfolded PEdge] subset_refl True]
      have "passed_done g h visited r" .
      from get_edge_fetched[OF this c] have pre: "fetched g h3 visited r e'" .
      from "2.hyps"(3)[OF PEdge _ c[symmetric] l pre] True obtain new where
        n: "out' = out @ new"
        and s: "\<forall>r'. r' = r \<or> PVertex r' \<in> set new \<or> passed_done g h3 visited r'
                  \<longrightarrow> passed_done g h' vis' r'"
        by blast
      have "\<forall>r'. r' = r \<or> PVertex r' \<in> set new \<or> passed_done g h visited r'
              \<longrightarrow> passed_done g h' vis' r'"
      proof (intro allI impI)
        fix r'
        assume a: "r' = r \<or> PVertex r' \<in> set new \<or> passed_done g h visited r'"
        show "passed_done g h' vis' r'"
        proof (cases "r' = r \<or> PVertex r' \<in> set new")
          case True
          with s show ?thesis by blast
        next
          case False
          with a have "passed_done g h visited r'" by auto
          with False call_vertex_other[OF c, of r'] cursor_only_eheap[OF co]
            passed_done_same[where h' = h3 and h = h and r = r' and g = g and vis = visited]
          have "passed_done g h3 visited r'" by simp
          with s show ?thesis by blast
        qed
      qed
      with n show ?thesis by blast
    next
      case False
      let ?vis0 = "visited @ [EdgeBase_get_id (eheap h er)]"
      from "2.prems"(1) PEdge False obtain h2 vis2 out2 where
        d: "dump_graph (dp - 1) g (Edge_get_vertex2 g (eheap h er)) ?vis0 (out @ [PEdge er]) h
              = Inr (h2, vis2, out2)"
        by (auto split: sum.splits)
      obtain e' h3 where c: "call_vertex (Vertex_get_edge g) r h2 = (e', h3)"
        by (cases "call_vertex (Vertex_get_edge g) r h2")
      note co3 = call_get_edge_cursor_only[OF c]
      from "2.prems"(1) PEdge False d c
      have l: "dump_loop dp g r e' vis2 out2 h3 = Inr (h', vis', out')"
        by simp
      from "2.hyps"(1)[OF PEdge False d] obtain new0 where
        n0: "out2 = (out @ [PEdge er]) @ Edge_get_vertex2 g (eheap h er) # new0"
        and s0: "\<forall>r'. PVertex r' \<in> set (Edge_get_vertex2 g (eheap h er) # new0)
                   \<or> passed_done g h ?vis0 r' \<longrightarrow> passed_done g h2 vis2 r'"
        by blast
      have "passed_done g h ?vis0 r"
        by (rule fetched_visited[OF "2.prems"(2)[unfolded PEdge]]) auto
      with s0 have "passed_done g h2 vis2 r" by blast
      from get_edge_fetched[OF this c] have pre: "fetched g h3 vis2 r e'" .
      from "2.hyps"(2)[OF PEdge False d refl refl c[symmetric] l pre] obtain new2 where
        n2: "out' = out2 @ new2"
        and s2: "\<forall>r'. r' = r \<or> PVertex r' \<in> set new2 \<or> passed_done g h3 vis2 r'
                   \<longrightarrow> passed_done g h' vis' r'"
        by blast
      let ?new = "PEdge er # Edge_get_vertex2 g (eheap h er) # new0 @ new2"
      have n: "out' = out @ ?new"
        using n0 n2 by simp
      have "\<forall>r'. r' = r \<or> PVertex r' \<in> set ?new \<or> passed_done g h visited r'
              \<longrightarrow> passed_done g h' vis' r'"
      proof (intro allI impI)
        fix r'
        assume a: "r' = r \<or> PVertex r' \<in> set ?new \<or> passed_done g h visited r'"
        show "passed_done g h' vis' r'"
        proof (cases "r' = r \<or> PVertex r' \<in> set new2")
          case True
          with s2 show ?thesis by blast
        next
          case False
          with a have "PVertex r' \<in> set (Edge_get_vertex2 g (eheap h er) # new0)
              \<or> passed_done g h visited r'" by auto
          then have "PVertex r' \<in> set (Edge_get_vertex2 g (eheap h er) # new0)
              \<or> passed_done g h ?vis0 r'"
            using passed_done_mono[of visited ?vis0 g h r'] by auto
          with s0 have "passed_done g h2 vis2 r'" by blast
          with False call_vertex_other[OF c, of r'] cursor_only_eheap[OF co3]
            passed_done_same[where h' = h3 and h = h2 and r = r' and g = g and vis = vis2]
          have "passed_done g h3 vis2 r'" by simp
          with s2 show ?thesis by blast
        qed
      qed
      with n show ?thesis by blast
    qed
  qed (use "2.prems"(1) in \<open>simp_all\<close>)
qed

section \<open>The notebook cells\<close>

text \<open>A method call on a value that may be \<^verbatim>\<open>None\<close>: \<^verbatim>\<open>None\<close> has no methods (AttributeError).\<close>

definition edge_ref :: "pyval \<Rightarrow> exn + ref" where
  "edge_ref v = (case v of PEdge r \<Rightarrow> Inr r | _ \<Rightarrow> Inl AttributeError)"

definition vertex_ref :: "pyval \<Rightarrow> exn + ref" where
  "vertex_ref v = (case v of PVertex r \<Rightarrow> Inr r | _ \<Rightarrow> Inl AttributeError)"

text \<open>
  The two dumps of the notebook nest four activations at most. The interpreter of a
  notebook admits far more (its limit is at least 1000 frames, of which the kernel and
  \<^verbatim>\<open>print\<close> take some dozens); the cells are run with room for 100.
\<close>

definition cell_depth :: nat where
  "cell_depth = 100"

subsection \<open>Cell 10: the test graph\<close>

definition cell10_build :: "exn + (graph \<times> heap \<times> ref \<times> ref \<times> ref)" where
  "cell10_build =
     (
      let g = Graph_init in
      let h = empty_heap in
      case new_Vertex ''v1'' h of (v, h) \<Rightarrow>
      case Graph_add_vertex h v g of (v1, g) \<Rightarrow>
      bind_exn (vertex_ref v1) (\<lambda>v1.
      let h = vertex_insert_data v1 (KStr ''test'') (PStr ''Can I add a test data'') h in
      case new_Vertex ''v2'' h of (v, h) \<Rightarrow>
      case Graph_add_vertex h v g of (v2, g) \<Rightarrow>
      bind_exn (vertex_ref v2) (\<lambda>v2.
      let h = vertex_insert_data v2 (KStr ''test'') (PStr ''Perhaps?'') h in
      case new_Vertex ''v3'' h of (v, h) \<Rightarrow>
      case Graph_add_vertex h v g of (v3, g) \<Rightarrow>
      bind_exn (vertex_ref v3) (\<lambda>v3.
      let h = vertex_insert_data v3 (KStr ''test'') (PStr ''We will connect here'') h in
      case create_edge g v1 v2 h of (e1, g, h) \<Rightarrow>
      case create_edge g v2 v3 h of (e2, g, h) \<Rightarrow>
        Inr (g, h, v1, v2, v3)))))"

definition cell10 :: "exn + (graph \<times> heap \<times> ref \<times> ref \<times> ref)" where
  "cell10 =
     bind_exn cell10_build (\<lambda>(g, h, v1, v2, v3).
     bind_exn (dump_graph cell_depth g (PVertex v1) [] [] h) (\<lambda>(h, visited, out).
       Inr (g, h, v1, v2, v3)))"

subsection \<open>Cell 13: the rule network\<close>

definition cell13 :: "exn + (graph \<times> heap \<times> ref)" where
  "cell13 =
     (
      let g = Graph_init in
      let h = empty_heap in
      case new_Vertex ''start'' h of (v, h) \<Rightarrow>
      case Graph_add_vertex h v g of (start, g) \<Rightarrow>
      bind_exn (vertex_ref start) (\<lambda>start.
      let h = vertex_insert_data start (KInt 1) (PStr ''START'') h in
      case new_Vertex ''rule2'' h of (v, h) \<Rightarrow>
      case Graph_add_vertex h v g of (rule2, g) \<Rightarrow>
      bind_exn (vertex_ref rule2) (\<lambda>rule2.
      case create_edge g start rule2 h of (e1, g, h) \<Rightarrow>
      bind_exn (edge_ref e1) (\<lambda>e1.
      let h = edge_insert_data e1 (KInt 1) (PList [PStr ''x'', PStr ''>'', PInt 0]) h in
      case new_Vertex ''rule4'' h of (v, h) \<Rightarrow>
      case Graph_add_vertex h v g of (rule4, g) \<Rightarrow>
      bind_exn (vertex_ref rule4) (\<lambda>rule4.
      case create_edge g start rule4 h of (e2, g, h) \<Rightarrow>
      bind_exn (edge_ref e2) (\<lambda>e2.
      let h = edge_insert_data e2 (KInt 1) (PList [PStr ''x'', PStr ''<'', PInt 2000]) h in
      case new_Vertex ''rule3'' h of (v, h) \<Rightarrow>
      case Graph_add_vertex h v g of (rule3, g) \<Rightarrow>
      bind_exn (vertex_ref rule3) (\<lambda>rule3.
      case create_edge g rule2 rule3 h of (e3, g, h) \<Rightarrow>
      bind_exn (edge_ref e3) (\<lambda>e3.
      let h = edge_insert_data e3 (KInt 1) (PList [PStr ''x'', PStr ''>'', PInt 10]) h in
      case new_Vertex ''end_rule1'' h of (v, h) \<Rightarrow>
      case Graph_add_vertex h v g of (end_rule1, g) \<Rightarrow>
      bind_exn (vertex_ref end_rule1) (\<lambda>end_rule1.
      let h = vertex_insert_data end_rule1 (KInt 1) (PStr ''TERMINAL'') h in
      case create_edge g rule3 end_rule1 h of (e4, g, h) \<Rightarrow>
      bind_exn (edge_ref e4) (\<lambda>e4.
      let h = edge_insert_data e4 (KInt 1) (PList [PStr ''x'', PStr ''<'', PInt 80]) h in
      case new_Vertex ''rule5'' h of (v, h) \<Rightarrow>
      case Graph_add_vertex h v g of (rule5, g) \<Rightarrow>
      bind_exn (vertex_ref rule5) (\<lambda>rule5.
      case create_edge g rule4 rule5 h of (e5, g, h) \<Rightarrow>
      bind_exn (edge_ref e5) (\<lambda>e5.
      let h = edge_insert_data e5 (KInt 1) (PList [PStr ''x'', PStr ''<'', PInt 100]) h in
      case new_Vertex ''end_rule2'' h of (v, h) \<Rightarrow>
      case Graph_add_vertex h v g of (end_rule2, g) \<Rightarrow>
      bind_exn (vertex_ref end_rule2) (\<lambda>end_rule2.
      let h = vertex_insert_data end_rule2 (KInt 1) (PStr ''TERMINAL'') h in
      case create_edge g rule5 end_rule2 h of (e6, g, h) \<Rightarrow>
      bind_exn (edge_ref e6) (\<lambda>e6.
      let h = edge_insert_data e6 (KInt 1) (PList [PStr ''x'', PStr ''>'', PInt 80]) h in
      bind_exn (dump_graph cell_depth g (PVertex start) [] [] h) (\<lambda>(h, visited, out).
        Inr (g, h, start))))))))))))))))"

subsection \<open>Cells 14 to 21: the walk through the rule network\<close>

text \<open>
  The state of the walk: the store, the list \<^verbatim>\<open>visited\<close> and the LIFO queue \<^verbatim>\<open>path\<close>
  (bottom first, as \<^verbatim>\<open>list(path.queue)\<close> shows it; \<^verbatim>\<open>put\<close> appends, \<^verbatim>\<open>get\<close> takes the last).
  A \<^verbatim>\<open>print\<close> is modelled by the evaluation of its argument, which may raise.
\<close>

type_synonym walk = "heap \<times> string list \<times> string list"

definition cell14 :: "graph \<Rightarrow> ref \<Rightarrow> pynum \<Rightarrow> heap \<Rightarrow> exn + (walk \<times> pyval)" where
  "cell14 g start x h =
     (let visited = []; path = [] in
      case call_vertex (Vertex_get_first_edge g) start h of (start_choice_1, h) \<Rightarrow>
      bind_exn (edge_ref start_choice_1) (\<lambda>e.
      let visited = visited @ [EdgeBase_get_id (eheap h e)];
          path = path @ [EdgeBase_get_id (eheap h e)] in
      bind_exn (apply_rule (get_data (KInt 1) (eheap h e)) x) (\<lambda>printed.
        Inr ((h, visited, path), start_choice_1))))"

definition cell15 :: "graph \<Rightarrow> pynum \<Rightarrow> walk \<Rightarrow> pyval \<Rightarrow> exn + (walk \<times> pyval)" where
  "cell15 g x w start_choice_1 =
     (case w of (h, visited, path) \<Rightarrow>
      bind_exn (edge_ref start_choice_1) (\<lambda>e.
      bind_exn (vertex_ref (Edge_get_vertex2 g (eheap h e))) (\<lambda>vtx.
      case call_vertex (Vertex_get_first_edge g) vtx h of (next_choice, h) \<Rightarrow>
      bind_exn (edge_ref next_choice) (\<lambda>e.
      case (if EdgeBase_get_id (eheap h e) \<in> set visited
            then call_vertex (Vertex_get_edge g) vtx h else (next_choice, h)) of (next_choice, h) \<Rightarrow>
      bind_exn (edge_ref next_choice) (\<lambda>e.
      let visited = visited @ [EdgeBase_get_id (eheap h e)];
          path = path @ [EdgeBase_get_id (eheap h e)] in
      bind_exn (apply_rule (get_data (KInt 1) (eheap h e)) x) (\<lambda>printed.
        Inr ((h, visited, path), next_choice)))))))"

definition cell16 :: "graph \<Rightarrow> pynum \<Rightarrow> walk \<Rightarrow> pyval \<Rightarrow> exn + (walk \<times> pyval)" where
  "cell16 g x w next_choice =
     (case w of (h, visited, path) \<Rightarrow>
      bind_exn (edge_ref next_choice) (\<lambda>e.
      bind_exn (vertex_ref (Edge_get_vertex2 g (eheap h e))) (\<lambda>vtx.
      case call_vertex (Vertex_get_first_edge g) vtx h of (first_way_out, h) \<Rightarrow>
      bind_exn (edge_ref first_way_out) (\<lambda>e.
      case (if EdgeBase_get_id (eheap h e) \<in> set visited
            then call_vertex (Vertex_get_edge g) vtx h else (first_way_out, h)) of (first_way_out, h) \<Rightarrow>
      bind_exn (edge_ref first_way_out) (\<lambda>e.
      let visited = visited @ [EdgeBase_get_id (eheap h e)];
          path = path @ [EdgeBase_get_id (eheap h e)] in
      bind_exn (vertex_ref (Edge_get_vertex2 g (eheap h e))) (\<lambda>v2.
      bind_exn (apply_rule (get_data (KInt 1) (eheap h e)) x) (\<lambda>printed.
        Inr ((h, visited, path), first_way_out))))))))"

text \<open>
  The inner loop of cell 17:
  \<^verbatim>\<open>while anedge is not None and anedge.get_id() in visited: anedge = fvertex.get_edge(g)\<close>.
\<close>

function skip_visited :: "graph \<Rightarrow> string list \<Rightarrow> ref \<Rightarrow> pyval \<Rightarrow> heap \<Rightarrow> pyval \<times> heap" where
  "skip_visited g visited fvertex anedge h =
     (case anedge of
        PEdge e \<Rightarrow>
          (if EdgeBase_get_id (eheap h e) \<in> set visited
           then (case call_vertex (Vertex_get_edge g) fvertex h of
                   (anedge', h') \<Rightarrow> skip_visited g visited fvertex anedge' h')
           else (anedge, h))
      | _ \<Rightarrow> (anedge, h))"
  by pat_completeness auto
termination
proof (relation "measure (\<lambda>(g, visited, fvertex, anedge, h).
    (length (edges (vheap h fvertex)) - iv (vheap h fvertex))
      + (case anedge of PEdge e \<Rightarrow> 1 | _ \<Rightarrow> 0))", goal_cases)
  case 1
  show ?case by simp
next
  case (2 g visited fvertex anedge h e anedge' h')
  then have "call_vertex (Vertex_get_edge g) fvertex h = (anedge', h')" by simp
  from get_edge_advances[OF this] 2(1) show ?case by simp
qed

lemma bind_exn_cong [fundef_cong]:
  "m = m' \<Longrightarrow> (\<And>a. m' = Inr a \<Longrightarrow> f a = f' a) \<Longrightarrow> bind_exn m f = bind_exn m' f'"
  by (auto simp: bind_exn_def split: sum.splits)

text \<open>
  The outer loop of cell 17, \<^verbatim>\<open>while not path.empty()\<close>: pop the last edge id, go to its
  first vertex, look from the start of its adjacency list for an edge that is not in
  \<^verbatim>\<open>visited\<close>; \<^verbatim>\<open>break\<close> when there is one. The variable \<^verbatim>\<open>anedge\<close> is unbound until the
  first iteration assigns it (\<open>None\<close> here).
\<close>

function backtrack ::
  "graph \<Rightarrow> string list \<Rightarrow> string list \<Rightarrow> pyval option \<Rightarrow> heap
     \<Rightarrow> exn + (heap \<times> string list \<times> pyval option)" where
  "backtrack g visited path anedge h =
     (if path = [] then Inr (h, path, anedge)
      else
        bind_exn (edge_ref (Graph_get_edge (last path) g)) (\<lambda>prev_edge.
        bind_exn (vertex_ref (Edge_get_vertex1 g (eheap h prev_edge))) (\<lambda>fvertex.
          case call_vertex (Vertex_get_first_edge g) fvertex h of
            (anedge1, h1) \<Rightarrow>
              (case skip_visited g visited fvertex anedge1 h1 of
                 (anedge2, h2) \<Rightarrow>
                   if anedge2 = PNone then backtrack g visited (butlast path) (Some anedge2) h2
                   else Inr (h2, butlast path, Some anedge2)))))"
  by pat_completeness auto
termination
  by (relation "measure (\<lambda>(g, visited, path, anedge, h). length path)") auto

text \<open>
  Cell 17. The first \<^verbatim>\<open>path.get()\<close> drops the edge that failed; on an empty queue
  \<^verbatim>\<open>LifoQueue.get\<close> waits for ever (\<open>Blocked\<close>).
\<close>

definition cell17 :: "graph \<Rightarrow> walk \<Rightarrow> exn + (walk \<times> pyval option)" where
  "cell17 g w =
     (case w of (h, visited, path) \<Rightarrow>
      if path = [] then Inl Blocked
      else bind_exn (backtrack g visited (butlast path) None h) (\<lambda>r.
        case r of (h, path, anedge) \<Rightarrow> Inr ((h, visited, path), anedge)))"

text \<open>Cell 18 prints \<^verbatim>\<open>path.empty()\<close> and \<^verbatim>\<open>anedge.get_vertex1(g).get_data(1)\<close>.\<close>

definition cell18 :: "graph \<Rightarrow> walk \<Rightarrow> pyval option \<Rightarrow> exn + pyval" where
  "cell18 g w anedge =
     (case w of (h, visited, path) \<Rightarrow>
      bind_exn (case anedge of None \<Rightarrow> Inl NameError | Some a \<Rightarrow> Inr a) (\<lambda>anedge.
      bind_exn (edge_ref anedge) (\<lambda>e.
      bind_exn (vertex_ref (Edge_get_vertex1 g (eheap h e))) (\<lambda>v1.
        Inr (get_data (KInt 1) (vheap h v1))))))"

definition cell19 :: "graph \<Rightarrow> pynum \<Rightarrow> walk \<Rightarrow> pyval option \<Rightarrow> exn + (walk \<times> pyval)" where
  "cell19 g x w anedge =
     (case w of (h, visited, path) \<Rightarrow>
      bind_exn (case anedge of None \<Rightarrow> Inl NameError | Some a \<Rightarrow> Inr a) (\<lambda>anedge.
      bind_exn (edge_ref anedge) (\<lambda>e.
      let visited = visited @ [EdgeBase_get_id (eheap h e)];
          path = path @ [EdgeBase_get_id (eheap h e)] in
      bind_exn (apply_rule (get_data (KInt 1) (eheap h e)) x) (\<lambda>printed.
        Inr ((h, visited, path), anedge)))))"

definition cell20 :: "graph \<Rightarrow> pynum \<Rightarrow> walk \<Rightarrow> pyval \<Rightarrow> exn + (walk \<times> pyval)" where
  "cell20 g x w anedge =
     (case w of (h, visited, path) \<Rightarrow>
      bind_exn (edge_ref anedge) (\<lambda>e.
      bind_exn (vertex_ref (Edge_get_vertex2 g (eheap h e))) (\<lambda>vtxx.
      case call_vertex (Vertex_get_first_edge g) vtxx h of (second_way_out, h) \<Rightarrow>
      bind_exn (edge_ref second_way_out) (\<lambda>e.
      case (if EdgeBase_get_id (eheap h e) \<in> set visited
            then call_vertex (Vertex_get_edge g) vtxx h else (second_way_out, h)) of (second_way_out, h) \<Rightarrow>
      bind_exn (edge_ref second_way_out) (\<lambda>e.
      let visited = visited @ [EdgeBase_get_id (eheap h e)];
          path = path @ [EdgeBase_get_id (eheap h e)] in
      bind_exn (vertex_ref (Edge_get_vertex2 g (eheap h e))) (\<lambda>v2.
      bind_exn (apply_rule (get_data (KInt 1) (eheap h e)) x) (\<lambda>printed.
        Inr ((h, visited, path), second_way_out))))))))"

text \<open>Cell 21: \<^verbatim>\<open>for l in lpath: e = g.get_edge(l); print(apply_rule(e.get_data(1), x))\<close>.\<close>

fun cell21 :: "graph \<Rightarrow> pynum \<Rightarrow> heap \<Rightarrow> string list \<Rightarrow> exn + pyval list" where
  "cell21 g x h [] = Inr []"
| "cell21 g x h (l # lpath) =
     bind_exn (edge_ref (Graph_get_edge l g)) (\<lambda>e.
     bind_exn (apply_rule (get_data (KInt 1) (eheap h e)) x) (\<lambda>printed.
     bind_exn (cell21 g x h lpath) (\<lambda>rest. Inr (printed # rest))))"

text \<open>The cells in notebook order, from the state cell 13 leaves, for the test value \<open>x\<close>.\<close>

definition rete_walk :: "graph \<Rightarrow> ref \<Rightarrow> pynum \<Rightarrow> heap \<Rightarrow> exn + walk" where
  "rete_walk g start x h =
     bind_exn (cell14 g start x h) (\<lambda>(w, start_choice_1).
     bind_exn (cell15 g x w start_choice_1) (\<lambda>(w, next_choice).
     bind_exn (cell16 g x w next_choice) (\<lambda>(w, first_way_out).
     bind_exn (cell17 g w) (\<lambda>(w, anedge).
     bind_exn (cell18 g w anedge) (\<lambda>printed.
     bind_exn (cell19 g x w anedge) (\<lambda>(w, anedge).
     bind_exn (cell20 g x w anedge) (\<lambda>(w, second_way_out).
     bind_exn (cell21 g x (fst w) (snd (snd w))) (\<lambda>printed. Inr w))))))))"

definition notebook :: "int \<Rightarrow> exn + walk" where
  "notebook x = bind_exn cell13 (\<lambda>(g, h, start). rete_walk g start (NInt x) h)"

text \<open>The same walk from a graph that holds a single vertex and no edge.\<close>

definition lone_start :: "int \<Rightarrow> exn + walk" where
  "lone_start x =
     (let g = Graph_init; h = empty_heap in
      case new_Vertex ''start'' h of (v, h) \<Rightarrow>
      case Graph_add_vertex h v g of (start, g) \<Rightarrow>
      bind_exn (vertex_ref start) (\<lambda>start. rete_walk g start (NInt x) h))"

text \<open>
  The same walk through a network in which a vertex has two incoming edges: \<^verbatim>\<open>X\<close> to
  \<^verbatim>\<open>V\<close>, \<^verbatim>\<open>start\<close> to \<^verbatim>\<open>V\<close>, \<^verbatim>\<open>start\<close> to \<^verbatim>\<open>W\<close> and \<^verbatim>\<open>W\<close> to \<^verbatim>\<open>Z\<close>, created in this order
  with \<^verbatim>\<open>add_vertex\<close>, \<^verbatim>\<open>create_edge\<close> and \<^verbatim>\<open>insert_data\<close> as in cell 13.
\<close>

definition revisit_graph :: "exn + (graph \<times> heap \<times> ref)" where
  "revisit_graph =
     (let g = Graph_init; h = empty_heap in
      case new_Vertex ''X'' h of (v, h) \<Rightarrow>
      case Graph_add_vertex h v g of (vX, g) \<Rightarrow>
      bind_exn (vertex_ref vX) (\<lambda>vX.
      case new_Vertex ''V'' h of (v, h) \<Rightarrow>
      case Graph_add_vertex h v g of (vV, g) \<Rightarrow>
      bind_exn (vertex_ref vV) (\<lambda>vV.
      case new_Vertex ''start'' h of (v, h) \<Rightarrow>
      case Graph_add_vertex h v g of (start, g) \<Rightarrow>
      bind_exn (vertex_ref start) (\<lambda>start.
      case new_Vertex ''W'' h of (v, h) \<Rightarrow>
      case Graph_add_vertex h v g of (vW, g) \<Rightarrow>
      bind_exn (vertex_ref vW) (\<lambda>vW.
      case new_Vertex ''Z'' h of (v, h) \<Rightarrow>
      case Graph_add_vertex h v g of (vZ, g) \<Rightarrow>
      bind_exn (vertex_ref vZ) (\<lambda>vZ.
      case create_edge g vX vV h of (e1, g, h) \<Rightarrow>
      bind_exn (edge_ref e1) (\<lambda>e1.
      let h = edge_insert_data e1 (KInt 1) (PList [PStr ''x'', PStr ''>'', PInt 0]) h in
      case create_edge g start vV h of (e2, g, h) \<Rightarrow>
      bind_exn (edge_ref e2) (\<lambda>e2.
      let h = edge_insert_data e2 (KInt 1) (PList [PStr ''x'', PStr ''>'', PInt 0]) h in
      case create_edge g start vW h of (e3, g, h) \<Rightarrow>
      bind_exn (edge_ref e3) (\<lambda>e3.
      let h = edge_insert_data e3 (KInt 1) (PList [PStr ''x'', PStr ''<'', PInt 2000]) h in
      case create_edge g vW vZ h of (e4, g, h) \<Rightarrow>
      bind_exn (edge_ref e4) (\<lambda>e4.
      let h = edge_insert_data e4 (KInt 1) (PList [PStr ''x'', PStr ''<'', PInt 100]) h in
        Inr (g, h, start)))))))))))"

definition revisit :: "int \<Rightarrow> exn + walk" where
  "revisit x = bind_exn revisit_graph (\<lambda>(g, h, start). rete_walk g start (NInt x) h)"

text \<open>A second edge for an ordered pair that already has one.\<close>

definition two_vertices :: "exn + (graph \<times> heap \<times> ref \<times> ref)" where
  "two_vertices =
     (let g = Graph_init; h = empty_heap in
      case new_Vertex ''a'' h of (v, h) \<Rightarrow>
      case Graph_add_vertex h v g of (a, g) \<Rightarrow>
      bind_exn (vertex_ref a) (\<lambda>a.
      case new_Vertex ''b'' h of (v, h) \<Rightarrow>
      case Graph_add_vertex h v g of (b, g) \<Rightarrow>
      bind_exn (vertex_ref b) (\<lambda>b.
      case create_edge g a b h of (e1, g, h) \<Rightarrow>
      bind_exn (edge_ref e1) (\<lambda>e1.
      let h = edge_insert_data e1 (KInt 1) (PList [PStr ''x'', PStr ''>'', PInt 0]) h in
        Inr (g, h, a, b)))))"

section \<open>Evaluating the cells\<close>

text \<open>
  The cells are evaluated by rewriting, in the order the interpreter runs them: the value
  of a statement is computed before the statements after it are looked at. To that end a
  pair pattern is rewritten with \<open>eval_pair\<close>, which takes the whole pair at once.
\<close>

definition eval_pair :: "'a \<Rightarrow> ('a \<Rightarrow> 'b) \<Rightarrow> 'b" where
  "eval_pair p f = f p"

lemma eval_pair_cong: "p = q \<Longrightarrow> eval_pair p f = eval_pair q f"
  by simp

lemma case_prod_eval_pair: "case_prod f p = eval_pair p (\<lambda>q. f (fst q) (snd q))"
  by (simp add: eval_pair_def case_prod_beta)

lemma bind_exn_weak_cong: "m = m' \<Longrightarrow> bind_exn m f = bind_exn m' f"
  by simp

lemma bind_exn_simps:
  "bind_exn (Inr a) f = f a"
  "bind_exn (Inl e) f = Inl e"
  by (simp_all add: bind_exn_def)

lemmas model_defs = new_Vertex_def empty_heap_def Graph_add_vertex_def Graph_init_def
     vertex_insert_data_def edge_insert_data_def create_edge_def new_Edge_def Vertex_init_def Edge_init_def VertexBase_get_id_def
     EdgeBase_get_id_def edge_id_def Vertex_add_edge_def Graph_add_edge_def insert_data_def
     call_vertex_def Vertex_get_first_edge_def Vertex_get_edge_def Graph_get_edge_def Graph_get_vertex_def
     Edge_get_vertex2_def Edge_get_vertex1_def edge_ref_def vertex_ref_def get_data_def
     apply_rule_def bind_exn_simps subscript_def as_number_def py_gt_def py_lt_def
     cell14_def cell15_def cell16_def cell17_def cell18_def cell19_def cell20_def rete_walk_def notebook_def


lemmas eval_simps = model_defs eval_pair_def case_prod_eval_pair Let_def
  cell10_build_def cell10_def cell13_def lone_start_def two_vertices_def cell_depth_def
  revisit_graph_def revisit_def
lemmas eval_congs = prod.case_cong_weak eval_pair_cong let_weak_cong bind_exn_weak_cong

section \<open>The loops of cell 17\<close>

lemma Graph_get_edge_cases: "Graph_get_edge k g = PNone \<or> (\<exists>er. Graph_get_edge k g = PEdge er)"
  by (simp add: Graph_get_edge_def split: option.splits)

lemma get_edge_result:
  "call_vertex (Vertex_get_edge g) r h = (e, h') \<Longrightarrow> e = PNone \<or> (\<exists>er. e = PEdge er)"
  using Graph_get_edge_cases
  by (auto simp: call_vertex_def Vertex_get_edge_def Let_def split: if_splits)

lemma get_first_edge_result:
  "call_vertex (Vertex_get_first_edge g) r h = (e, h') \<Longrightarrow> e = PNone \<or> (\<exists>er. e = PEdge er)"
  using Graph_get_edge_cases
  by (auto simp: call_vertex_def Vertex_get_first_edge_def Vertex_get_edge_def Let_def split: if_splits)

lemma skip_visited_spec:
  "skip_visited g visited fvertex anedge h = (a', h') \<Longrightarrow>
   anedge = PNone \<or> (\<exists>e. anedge = PEdge e) \<Longrightarrow>
     cursor_only h h'
     \<and> (a' = PNone \<or> (\<exists>e. a' = PEdge e \<and> EdgeBase_get_id (eheap h e) \<notin> set visited))"
proof (induction g visited fvertex anedge h arbitrary: a' h' rule: skip_visited.induct)
  case (1 g visited fvertex anedge h)
  show ?case
  proof (cases anedge)
    case PNone
    with "1.prems" show ?thesis by (simp add: cursor_only_refl)
  next
    case (PEdge e)
    show ?thesis
    proof (cases "EdgeBase_get_id (eheap h e) \<in> set visited")
      case False
      with PEdge "1.prems" show ?thesis by (auto simp: cursor_only_refl)
    next
      case True
      obtain a1 h1 where c: "call_vertex (Vertex_get_edge g) fvertex h = (a1, h1)"
        by (cases "call_vertex (Vertex_get_edge g) fvertex h")
      from "1.prems"(1) PEdge True c have s: "skip_visited g visited fvertex a1 h1 = (a', h')"
        by simp
      note co = call_get_edge_cursor_only[OF c]
      from "1.IH"[OF PEdge True c[symmetric] s get_edge_result[OF c]]
      have "cursor_only h1 h'"
        and "a' = PNone \<or> (\<exists>e. a' = PEdge e \<and> EdgeBase_get_id (eheap h1 e) \<notin> set visited)"
        by simp_all
      with co show ?thesis
        by (auto intro: cursor_only_trans simp: cursor_only_eheap)
    qed
  qed (use "1.prems" in auto)
qed

lemma bind_exn_Inr:
  "bind_exn m f = Inr b \<longleftrightarrow> (\<exists>a. m = Inr a \<and> f a = Inr b)"
  by (cases m) (simp_all add: bind_exn_def)

lemma bind_exn_Inl:
  "bind_exn m f = Inl e \<longleftrightarrow> m = Inl e \<or> (\<exists>a. m = Inr a \<and> f a = Inl e)"
  by (cases m) (simp_all add: bind_exn_def)

lemma edge_ref_Inl: "edge_ref v = Inl e \<Longrightarrow> e = AttributeError"
  by (auto simp: edge_ref_def split: pyval.splits)

lemma vertex_ref_Inl: "vertex_ref v = Inl e \<Longrightarrow> e = AttributeError"
  by (auto simp: vertex_ref_def split: pyval.splits)

lemma backtrack_Inl:
  "backtrack g visited path anedge h = Inl e \<Longrightarrow> e = AttributeError"
proof (induction g visited path anedge h rule: backtrack.induct)
  case (1 g visited path anedge h)
  show ?case
  proof (cases "path = []")
    case True
    with "1.prems" show ?thesis by simp
  next
    case False
    show ?thesis
    proof (cases "edge_ref (Graph_get_edge (last path) g)")
      case (Inl x)
      with False "1.prems" show ?thesis
        by (simp add: bind_exn_def edge_ref_Inl)
    next
      case pe: (Inr prev_edge)
      show ?thesis
      proof (cases "vertex_ref (Edge_get_vertex1 g (eheap h prev_edge))")
        case (Inl x)
        with False pe "1.prems" show ?thesis
          by (simp add: bind_exn_def vertex_ref_Inl)
      next
        case fv: (Inr fvertex)
        obtain a1 h1 where c: "call_vertex (Vertex_get_first_edge g) fvertex h = (a1, h1)"
          by (cases "call_vertex (Vertex_get_first_edge g) fvertex h")
        obtain a2 h2 where s: "skip_visited g visited fvertex a1 h1 = (a2, h2)"
          by (cases "skip_visited g visited fvertex a1 h1")
        show ?thesis
        proof (cases "a2 = PNone")
          case True
          with False pe fv c s "1.prems"
          have "backtrack g visited (butlast path) (Some a2) h2 = Inl e"
            by (simp add: bind_exn_def)
          from "1.IH"[OF False pe fv c[symmetric] s[symmetric] True this] show ?thesis .
        next
          case F: False
          with False pe fv c s "1.prems" show ?thesis
            by (simp add: bind_exn_def)
        qed
      qed
    qed
  qed
qed

lemma backtrack_Inr:
  "backtrack g visited path anedge h = Inr (h', path', anedge') \<Longrightarrow>
     cursor_only h h'
     \<and> (\<exists>n. path' = take n path)
     \<and> (path = [] \<and> anedge' = anedge
        \<or> path' = [] \<and> anedge' = Some PNone
        \<or> (\<exists>e. anedge' = Some (PEdge e) \<and> EdgeBase_get_id (eheap h e) \<notin> set visited
              \<and> length path' < length path))"
proof (induction g visited path anedge h rule: backtrack.induct)
  case (1 g visited path anedge h)
  show ?case
  proof (cases "path = []")
    case True
    with "1.prems" show ?thesis by (auto simp: cursor_only_refl)
  next
    case False
    from False "1.prems" obtain prev_edge where pe: "edge_ref (Graph_get_edge (last path) g) = Inr prev_edge"
      by (auto simp: bind_exn_Inr)
    from False "1.prems" pe obtain fvertex where
      fv: "vertex_ref (Edge_get_vertex1 g (eheap h prev_edge)) = Inr fvertex"
      by (auto simp: bind_exn_Inr)
    obtain a1 h1 where c: "call_vertex (Vertex_get_first_edge g) fvertex h = (a1, h1)"
      by (cases "call_vertex (Vertex_get_first_edge g) fvertex h")
    obtain a2 h2 where s: "skip_visited g visited fvertex a1 h1 = (a2, h2)"
      by (cases "skip_visited g visited fvertex a1 h1")
    note co1 = call_get_first_edge_cursor_only[OF c]
    from skip_visited_spec[OF s get_first_edge_result[OF c]]
    have co2: "cursor_only h1 h2"
      and a2: "a2 = PNone \<or> (\<exists>e. a2 = PEdge e \<and> EdgeBase_get_id (eheap h1 e) \<notin> set visited)"
      by simp_all
    have co: "cursor_only h h2" using co1 co2 by (rule cursor_only_trans)
    have bl: "butlast path = take (length path - 1) path"
      by (simp add: butlast_conv_take)
    show ?thesis
    proof (cases "a2 = PNone")
      case True
      with False pe fv c s "1.prems"
      have b: "backtrack g visited (butlast path) (Some a2) h2 = Inr (h', path', anedge')"
        by (simp add: bind_exn_def)
      from "1.IH"[OF False pe fv c[symmetric] s[symmetric] True b]
      have i1: "cursor_only h2 h'"
        and i2: "\<exists>n. path' = take n (butlast path)"
        and i3: "butlast path = [] \<and> anedge' = Some a2
          \<or> path' = [] \<and> anedge' = Some PNone
          \<or> (\<exists>e. anedge' = Some (PEdge e) \<and> EdgeBase_get_id (eheap h2 e) \<notin> set visited
                \<and> length path' < length (butlast path))"
        by simp_all
      from i2 obtain n where "path' = take n (butlast path)" by blast
      then have p1: "path' = take (min n (length path - 1)) path"
        by (simp add: bl min.commute)
      have e2: "eheap h2 = eheap h" using co by (rule cursor_only_eheap)
      from i3 True i2 e2 have
        "path' = [] \<and> anedge' = Some PNone
          \<or> (\<exists>e. anedge' = Some (PEdge e) \<and> EdgeBase_get_id (eheap h e) \<notin> set visited
                \<and> length path' < length path)"
        by auto
      with p1 co i1 show ?thesis
        by (blast intro: cursor_only_trans)
    next
      case F: False
      with False pe fv c s "1.prems"
      have r: "h' = h2" "path' = butlast path" "anedge' = Some a2"
        by (simp_all add: bind_exn_def)
      from a2 F obtain e where e: "a2 = PEdge e" "EdgeBase_get_id (eheap h1 e) \<notin> set visited"
        by blast
      have e1: "eheap h1 = eheap h" using co1 by (rule cursor_only_eheap)
      have "length (butlast path) < length path" using False by simp
      with r e e1 co bl show ?thesis by auto
    qed
  qed
qed

subsection \<open>The walk never waits on the empty path stack\<close>

text \<open>
  Every function of the model is total, so a cell either gives a result or an exception
  of the interpreter. The one way not to come back is \<^verbatim>\<open>path.get()\<close> on an empty stack,
  the value \<open>Inl Blocked\<close>; \<open>returns m\<close> says that \<open>m\<close> is not that value.
\<close>

definition returns :: "exn + 'a \<Rightarrow> bool" where
  "returns m \<longleftrightarrow> m \<noteq> Inl Blocked"

lemma returns_Inr: "returns (Inr a)"
  by (simp add: returns_def)

lemma returns_bind:
  "returns m \<Longrightarrow> (\<And>a. m = Inr a \<Longrightarrow> returns (f a)) \<Longrightarrow> returns (bind_exn m f)"
  by (cases m) (simp_all add: bind_exn_def returns_def)

lemma returns_edge_ref: "returns (edge_ref v)"
  by (simp add: edge_ref_def returns_def split: pyval.splits)

lemma returns_vertex_ref: "returns (vertex_ref v)"
  by (simp add: vertex_ref_def returns_def split: pyval.splits)

lemma returns_subscript: "returns (subscript d i)"
  by (simp add: subscript_def returns_def split: pyval.splits)

lemma returns_as_number: "returns (as_number t)"
  by (simp add: as_number_def returns_def split: pyval.splits)

lemma returns_apply_rule: "returns (apply_rule d x)"
  unfolding apply_rule_def
  by (intro returns_bind returns_subscript)
     (auto intro!: returns_bind returns_as_number returns_Inr)

lemma returns_unbound:
  "returns (case a of None \<Rightarrow> Inl NameError | Some v \<Rightarrow> Inr v)"
  by (simp add: returns_def split: option.splits)

lemmas returns_intros =
  returns_bind returns_Inr returns_edge_ref returns_vertex_ref returns_apply_rule
  returns_unbound

lemma returns_cell14: "returns (cell14 g start x h)"
  unfolding cell14_def Let_def by (auto split: prod.split intro!: returns_intros)

lemma returns_cell15: "returns (cell15 g x w c)"
  unfolding cell15_def Let_def by (auto split: prod.split intro!: returns_intros)

lemma returns_cell16: "returns (cell16 g x w c)"
  unfolding cell16_def Let_def by (auto split: prod.split intro!: returns_intros)

text \<open>Cell 16 leaves a non-empty path: it has just put an edge id.\<close>

definition put_done :: "exn + (walk \<times> 'a) \<Rightarrow> bool" where
  "put_done r \<longleftrightarrow> (case r of Inl e \<Rightarrow> True | Inr (w, c) \<Rightarrow> snd (snd w) \<noteq> [])"

lemma put_done_bind: "(\<And>a. m = Inr a \<Longrightarrow> put_done (f a)) \<Longrightarrow> put_done (bind_exn m f)"
  by (cases m) (simp_all add: bind_exn_def put_done_def)

lemma put_done_Inr: "path \<noteq> [] \<Longrightarrow> put_done (Inr ((h, visited, path), c))"
  by (simp add: put_done_def)

lemma cell16_put_done: "put_done (cell16 g x w c)"
  unfolding cell16_def Let_def
  by (auto split: prod.split intro!: put_done_bind put_done_Inr)

lemma cell16_path: "cell16 g x w c = Inr (w', c') \<Longrightarrow> snd (snd w') \<noteq> []"
  using cell16_put_done[of g x w c] by (simp add: put_done_def)

lemma returns_backtrack: "returns (backtrack g visited path anedge h)"
  using backtrack_Inl by (fastforce simp: returns_def)

lemma returns_cell17: "snd (snd w) \<noteq> [] \<Longrightarrow> returns (cell17 g w)"
  unfolding cell17_def
  by (cases w) (auto simp del: backtrack.simps intro!: returns_intros returns_backtrack)

lemma returns_cell18: "returns (cell18 g w a)"
  unfolding cell18_def by (auto split: prod.split intro!: returns_intros)

lemma returns_cell19: "returns (cell19 g x w a)"
  unfolding cell19_def Let_def by (auto split: prod.split intro!: returns_intros)

lemma returns_cell20: "returns (cell20 g x w c)"
  unfolding cell20_def Let_def by (auto split: prod.split intro!: returns_intros)

lemma returns_cell21: "returns (cell21 g x h lpath)"
  by (induction lpath) (auto intro!: returns_intros)

lemma returns_rete_walk: "returns (rete_walk g start x h)"
  unfolding rete_walk_def
  apply (rule returns_bind[OF returns_cell14], clarsimp)
  apply (rule returns_bind[OF returns_cell15], clarsimp)
  apply (rule returns_bind[OF returns_cell16], clarsimp)
  apply (drule cell16_path)
  apply (rule returns_bind[OF returns_cell17], simp, clarsimp)
  apply (rule returns_bind[OF returns_cell18])
  apply (rule returns_bind[OF returns_cell19], clarsimp)
  apply (rule returns_bind[OF returns_cell20], clarsimp)
  apply (rule returns_bind[OF returns_cell21])
  apply (rule returns_Inr)
  done

section \<open>C1: inserting an attribute twice\<close>

lemma get_data_insert_data:
  "get_data k (insert_data k v self) = v"
  by (simp add: get_data_def insert_data_def update_conv')

text \<open>
  C1 (as the code behaves): a second \<^verbatim>\<open>insert_data\<close> under a key that is already present
  does not fail; it replaces the stored value, so afterwards \<^verbatim>\<open>get_data\<close> returns the
  second value, not the first. Evaluated on a fresh vertex with key \<^verbatim>\<open>'test'\<close> and the values
  \<^verbatim>\<open>'first'\<close>, \<^verbatim>\<open>'second'\<close>.
\<close>

theorem insert_data_twice_overwrites:
  "get_data (KStr ''test'')
     (insert_data (KStr ''test'') (PStr ''second'')
        (insert_data (KStr ''test'') (PStr ''first'') (Vertex_init ''u''))) = PStr ''second''
   \<and> get_data (KStr ''test'')
        (insert_data (KStr ''test'') (PStr ''first'') (Vertex_init ''u'')) = PStr ''first''"
  by (simp add: get_data_insert_data)

section \<open>C2: predicate evaluation\<close>

lemma py_gt_int: "py_gt (NInt a) (NInt b) \<longleftrightarrow> a > b"
  by (simp add: py_gt_def)

lemma py_lt_int: "py_lt (NInt a) (NInt b) \<longleftrightarrow> a < b"
  by (simp add: py_lt_def)

lemma py_gt_finite: "py_gt (NFloat (Finite a)) (NFloat (Finite b)) \<longleftrightarrow> a > b"
  by (simp add: py_gt_def)

lemma py_lt_finite: "py_lt (NFloat (Finite a)) (NFloat (Finite b)) \<longleftrightarrow> a < b"
  by (simp add: py_lt_def)

text \<open>
  C2 (the claim as stated fails): with the comparator \<^verbatim>\<open>'='\<close> the call
  \<^verbatim>\<open>apply_rule(['x', '=', 5], 5)\<close> returns \<^verbatim>\<open>None\<close>; it raises nothing.
\<close>

theorem apply_rule_unrecognized_counterexample:
  "apply_rule (PList [PStr ''x'', PStr ''='', PInt 5]) (NInt 5) = Inr PNone"
  by (simp add: apply_rule_def bind_exn_def subscript_def as_number_def)

text \<open>
  C2 (amended): for every triple \<^verbatim>\<open>[name, comparator, threshold]\<close> whose threshold is a
  number and every number \<open>x\<close> (each an \<^verbatim>\<open>int\<close> or a \<^verbatim>\<open>float\<close>), \<^verbatim>\<open>apply_rule\<close> returns
  \<^verbatim>\<open>x > threshold\<close> for the comparator \<^verbatim>\<open>'>'\<close> and \<^verbatim>\<open>x < threshold\<close> for \<^verbatim>\<open>'<'\<close>; and
  for every other comparator, whatever the threshold is, it returns \<^verbatim>\<open>None\<close> normally:
  no exception is raised.
\<close>

theorem apply_rule_triple:
  "apply_rule (PList [name, cmp, num_val t]) x =
     (if cmp = PStr ''>'' then Inr (PBool (py_gt x t))
      else if cmp = PStr ''<'' then Inr (PBool (py_lt x t))
      else Inr PNone)
   \<and> (cmp \<noteq> PStr ''>'' \<and> cmp \<noteq> PStr ''<'' \<longrightarrow>
        apply_rule (PList [name, cmp, thr]) x = Inr PNone)"
  by (cases t) (simp_all add: apply_rule_def bind_exn_def subscript_def as_number_def)

text \<open>
  C2, the amended statement at \<^verbatim>\<open>apply_rule(['x', '>', 0.5], 1)\<close>, which is \<^verbatim>\<open>True\<close>, and at
  \<^verbatim>\<open>apply_rule(['x', '!=', 'five'], 0.5)\<close>, which is \<^verbatim>\<open>None\<close>.
\<close>

theorem apply_rule_triple_witness:
  "apply_rule (PList [PStr ''x'', PStr ''>'', PFloat (Finite (1 / 2))]) (NInt 1) = Inr (PBool True)
   \<and> PStr ''!='' \<noteq> PStr ''>'' \<and> PStr ''!='' \<noteq> PStr ''<''
   \<and> apply_rule (PList [PStr ''x'', PStr ''!='', PStr ''five'']) (NFloat (Finite (1 / 2))) = Inr PNone"
  using apply_rule_triple[of "PStr ''x''" "PStr ''>''" "NFloat (Finite (1 / 2))" "NInt 1"]
    apply_rule_triple[of "PStr ''x''" "PStr ''!=''" "NInt 0" "NFloat (Finite (1 / 2))" "PStr ''five''"]
  by (simp add: py_gt_def)

section \<open>C3: a second edge for the same ordered pair\<close>




section \<open>C4: creating an edge\<close>

text \<open>
  C4: for every graph, store and two vertices, \<^verbatim>\<open>create_edge\<close> returns the edge it has
  just constructed; that edge has the id of the first vertex as its source and the id of
  the second as its destination; its id has been appended to the adjacency list of both
  vertices (twice to the same list when the two vertices are one object); and
  \<^verbatim>\<open>get_edge\<close> with the edge's id returns that very edge, whose endpoints are the ids of
  the two vertices.
\<close>

theorem create_edge_spec:
  "(case create_edge g r1 r2 h of
      (ret, g', h') \<Rightarrow>
        ret = PEdge (enext h)
        \<and> eheap h' (enext h) = Edge_init (vheap h r1) (vheap h r2)
        \<and> ev1 (eheap h' (enext h)) = VertexBase_get_id (vheap h' r1)
        \<and> ev2 (eheap h' (enext h)) = VertexBase_get_id (vheap h' r2)
        \<and> edges (vheap h' r1) =
            edges (vheap h r1) @
              (if r1 = r2 then [EdgeBase_get_id (eheap h' (enext h)), EdgeBase_get_id (eheap h' (enext h))]
               else [EdgeBase_get_id (eheap h' (enext h))])
        \<and> edges (vheap h' r2) =
            edges (vheap h r2) @
              (if r1 = r2 then [EdgeBase_get_id (eheap h' (enext h)), EdgeBase_get_id (eheap h' (enext h))]
               else [EdgeBase_get_id (eheap h' (enext h))])
        \<and> Graph_get_edge (EdgeBase_get_id (eheap h' (enext h))) g' = PEdge (enext h))"
  by (simp add: create_edge_def new_Edge_def Graph_add_edge_def Graph_get_edge_def
      Vertex_add_edge_def Edge_init_def VertexBase_get_id_def EdgeBase_get_id_def update_conv')

section \<open>C5: enumerating the edges of a vertex\<close>

lemma get_edge_times_spec:
  "get_edge_times g n v =
     (map (\<lambda>k. Graph_get_edge k g) (take n (drop (iv v) (edges v)))
        @ replicate (n - (length (edges v) - iv v)) PNone,
      v\<lparr>iv := (if length (edges v) \<le> iv v then iv v else min (iv v + n) (length (edges v)))\<rparr>)"
proof (induction n arbitrary: v)
  case 0
  then show ?case by simp
next
  case (Suc n)
  show ?case
  proof (cases "length (edges v) \<le> iv v")
    case True
    then show ?thesis
      by (simp add: Suc Vertex_get_edge_def replicate_app_Cons_same)
  next
    case False
    then have lt: "iv v < length (edges v)" by simp
    have d: "drop (iv v) (edges v) = edges v ! iv v # drop (Suc (iv v)) (edges v)"
      using lt by (simp add: Cons_nth_drop_Suc)
    show ?thesis
      using lt by (simp add: Suc Vertex_get_edge_def d min_def Suc_diff_le)
  qed
qed

text \<open>
  C5: from any cursor position, \<^verbatim>\<open>get_first_edge\<close> followed by \<open>n\<close> calls of
  \<^verbatim>\<open>get_edge\<close> returns the graph's edge for each entry of the adjacency list exactly once,
  in insertion order, and \<^verbatim>\<open>None\<close> for every call after the list is exhausted; the
  cursor then stays at the length of the list (it neither wraps nor resets), and the list
  itself and every other field are unchanged.
\<close>

theorem enumerate_edges_spec:
  "enumerate_edges g n v =
     (map (\<lambda>k. Graph_get_edge k g) (take (Suc n) (edges v))
        @ replicate (Suc n - length (edges v)) PNone,
      v\<lparr>iv := min (Suc n) (length (edges v))\<rparr>)"
proof (cases "edges v")
  case Nil
  then show ?thesis
    by (simp add: enumerate_edges_def Vertex_get_first_edge_def Vertex_get_edge_def
        get_edge_times_spec replicate_app_Cons_same)
next
  case (Cons a as)
  then show ?thesis
    by (simp add: enumerate_edges_def Vertex_get_first_edge_def Vertex_get_edge_def
        get_edge_times_spec min_def)
qed

section \<open>C6: registering a vertex\<close>

text \<open>
  C6 (the claim as stated fails): \<^verbatim>\<open>add_vertex\<close> on a fresh vertex with id \<^verbatim>\<open>a\<close> returns
  the vertex object, which is not the vertex's id.
\<close>

theorem Graph_add_vertex_counterexample:
  "fst (Graph_add_vertex (snd (new_Vertex ''a'' empty_heap)) 0 Graph_init) = PVertex 0
   \<and> fst (Graph_add_vertex (snd (new_Vertex ''a'' empty_heap)) 0 Graph_init)
       \<noteq> PUUID (VertexBase_get_id (vheap (snd (new_Vertex ''a'' empty_heap)) 0))"
  by (simp add: Graph_add_vertex_def)

text \<open>
  C6 (amended): \<^verbatim>\<open>add_vertex\<close> always succeeds; it stores the vertex under its id in the
  graph's id-to-vertex dictionary (replacing an entry already there under that id),
  leaves the edge dictionary alone, and returns the vertex itself.
\<close>

theorem Graph_add_vertex_spec:
  "case Graph_add_vertex h vtx g of
     (ret, g') \<Rightarrow>
       ret = PVertex vtx
       \<and> map_of (vertices g') = (map_of (vertices g))(VertexBase_get_id (vheap h vtx) \<mapsto> vtx)
       \<and> Graph_get_vertex (VertexBase_get_id (vheap h vtx)) g' = PVertex vtx
       \<and> gedges g' = gedges g"
  by (simp add: Graph_add_vertex_def Graph_get_vertex_def update_conv')

section \<open>C7: the walk for x = 85\<close>

text \<open>
  C7 (the code falls short of the claim): the notebook run on the sample network with
  \<open>x = 85\<close> tries \<^verbatim>\<open>start.rule2\<close>, \<^verbatim>\<open>rule2.rule3\<close> and \<^verbatim>\<open>rule3.end_rule1\<close>, backs up to the
  start vertex and goes on with \<^verbatim>\<open>start.rule4\<close> and \<^verbatim>\<open>rule4.rule5\<close>. There it stops: the
  last cell leaves the path holding these two edges only, and the edge
  \<^verbatim>\<open>rule5.end_rule2\<close> to the terminal vertex is never fetched, visited or evaluated.
\<close>

theorem notebook_85:
  "(case notebook 85 of Inl e \<Rightarrow> Inl e | Inr (h, visited, path) \<Rightarrow> Inr (visited, path))
     = Inr ([''start.rule2'', ''rule2.rule3'', ''rule3.end_rule1'', ''start.rule4'', ''rule4.rule5''],
            [''start.rule4'', ''rule4.rule5''])"
  by (simp add: eval_simps cell13_def del: prod.case case_prod_conv cong: eval_congs)

section \<open>C8: every edge at most once\<close>

text \<open>
  C8 (the code falls short of the claim): the notebook keeps the list \<^verbatim>\<open>visited\<close> so that,
  in its words, "we won't walk down the same path again". But where cells 15, 16 and 20
  find the first edge of a vertex in that list, they take the next edge of that vertex as
  it comes, without looking it up in the list. On the network \<^verbatim>\<open>X\<close> to \<^verbatim>\<open>V\<close>, \<^verbatim>\<open>start\<close> to
  \<^verbatim>\<open>V\<close>, \<^verbatim>\<open>start\<close> to \<^verbatim>\<open>W\<close>, \<^verbatim>\<open>W\<close> to \<^verbatim>\<open>Z\<close> the walk takes \<^verbatim>\<open>start.V\<close>, then \<^verbatim>\<open>X.V\<close> (the first
  edge in the adjacency list of \<^verbatim>\<open>V\<close>), which leads to \<^verbatim>\<open>V\<close> again, and from there
  \<^verbatim>\<open>start.V\<close> once more: its id is appended to \<^verbatim>\<open>visited\<close> a second time, and the cell
  evaluates its rule a second time.
\<close>

theorem walk_revisits_edge:
  "(case revisit 85 of Inl e \<Rightarrow> Inl e | Inr (h, visited, path) \<Rightarrow> Inr (visited, path))
     = Inr ([''start.V'', ''X.V'', ''start.V'', ''start.W'', ''W.Z''],
            [''start.W'', ''W.Z''])"
  by (simp add: eval_simps del: prod.case case_prod_conv cong: eval_congs)

text \<open>
  What does hold of the walk. On a graph whose start vertex has no edge it ends in the
  first cell with an AttributeError: \<^verbatim>\<open>get_first_edge\<close> returns \<^verbatim>\<open>None\<close>, and the next line
  calls \<^verbatim>\<open>get_id\<close> on it.
\<close>

lemma lone_start_AttributeError:
  "lone_start 85 = Inl AttributeError"
  by (simp add: eval_simps del: prod.case case_prod_conv cong: eval_congs)

text \<open>
  For every graph, store, start vertex and input the walk of cells 14 to 21 comes back,
  with a final state or with an exception of the interpreter: it never waits on the empty
  path stack, and all its loops end. The backtracking loop changes nothing in the store
  but cursors, raises nothing but AttributeError (a popped id, or its first vertex, is not
  registered), and otherwise leaves a prefix of the path stack and either has not run at
  all (empty stack), or has emptied the stack without finding an edge, or hands on an edge
  that is not in the visited list, with a strictly shorter stack.
\<close>

lemma walk_comes_back:
  "returns (rete_walk g start x h)
   \<and> (case backtrack g visited path anedge h of
        Inl e \<Rightarrow> e = AttributeError
      | Inr (h', path', anedge') \<Rightarrow>
          cursor_only h h'
          \<and> (\<exists>n. path' = take n path)
          \<and> (path = [] \<and> anedge' = anedge
             \<or> path' = [] \<and> anedge' = Some PNone
             \<or> (\<exists>e. anedge' = Some (PEdge e) \<and> EdgeBase_get_id (eheap h e) \<notin> set visited
                   \<and> length path' < length path)))"
proof (cases "backtrack g visited path anedge h")
  case (Inl e)
  with backtrack_Inl[OF Inl] returns_rete_walk show ?thesis by simp
next
  case (Inr res)
  obtain h' path' anedge' where res: "res = (h', path', anedge')"
    by (cases res)
  from backtrack_Inr[OF Inr[unfolded res]] returns_rete_walk[of g start x h] Inr res
  show ?thesis by simp
qed

section \<open>C9: incoming edges are enumerated too\<close>

text \<open>
  C9: in the test graph of cell 10 the first edge that \<^verbatim>\<open>get_first_edge\<close> returns for the
  vertex \<^verbatim>\<open>v2\<close> is the edge from \<^verbatim>\<open>v1\<close> to \<^verbatim>\<open>v2\<close>: its destination, not its source, is the
  vertex being enumerated.
\<close>

theorem incoming_edge_enumerated:
  "(case cell10 of Inl e \<Rightarrow> False
    | Inr (g, h, v1, v2, v3) \<Rightarrow>
        (case call_vertex (Vertex_get_first_edge g) v2 h of
           (ed1, h') \<Rightarrow>
             ed1 = PEdge 0
             \<and> Edge_get_vertex2 g (eheap h 0) = PVertex v2
             \<and> Edge_get_vertex1 g (eheap h 0) = PVertex v1
             \<and> v1 \<noteq> v2))"
  by (simp add: eval_simps del: prod.case case_prod_conv cong: eval_congs)

section \<open>C10: what a dump changes\<close>

text \<open>
  The dump of cell 10: every second vertex of the test graph is registered, the graph has
  two edges, and the dump prints the three vertices and moves the cursor of each of them
  from 0 to the end of its adjacency list.
\<close>

lemma dump_graph_moves_cursors:
  "(case cell10_build of Inl e \<Rightarrow> False
    | Inr (g, h, v1, v2, v3) \<Rightarrow>
        ends_registered g h \<and> length (gedges g) = 2
        \<and> (case dump_graph cell_depth g (PVertex v1) [] [] h of Inl e \<Rightarrow> False
           | Inr (h', visited, out) \<Rightarrow>
               out = [PVertex v1, PEdge 0, PVertex v2, PEdge 1, PVertex v3]
               \<and> map (\<lambda>r. iv (vheap h r)) [v1, v2, v3] = [0, 0, 0]
               \<and> map (\<lambda>r. stopped g (vheap h r)) [v1, v2, v3] = [False, False, False]
               \<and> map (\<lambda>r. iv (vheap h' r)) [v1, v2, v3] = [1, 2, 1]))"
  by (simp add: eval_simps ends_registered_def stopped_def
      del: prod.case case_prod_conv cong: eval_congs)

text \<open>
  C10 (the claim as stated fails): a second dump of the test graph of cell 10 prints all
  three vertices and leaves the cursor of each of them where it was.
\<close>

theorem dump_graph_again_counterexample:
  "(case cell10 of Inl e \<Rightarrow> False
    | Inr (g, h, v1, v2, v3) \<Rightarrow>
        (case dump_graph cell_depth g (PVertex v1) [] [] h of Inl e \<Rightarrow> False
         | Inr (h', visited, out) \<Rightarrow>
             out = [PVertex v1, PEdge 0, PVertex v2, PEdge 1, PVertex v3]
             \<and> map (\<lambda>r. iv (vheap h' r)) [v1, v2, v3] = map (\<lambda>r. iv (vheap h r)) [v1, v2, v3]))"
  by (simp add: eval_simps del: prod.case case_prod_conv cong: eval_congs)

text \<open>
  C10 (amended): a dump from a vertex \<open>v\<close> that returns has printed \<open>v\<close> first, and it has
  reached every vertex it has printed by \<^verbatim>\<open>get_first_edge\<close> and \<^verbatim>\<open>get_edge\<close> on it,
  resetting and advancing the cursor of that vertex: the cursor stands where that
  enumeration stopped (at the end of the adjacency list, or just behind an entry that is
  not registered in the graph), whatever it was before, every entry it has passed is an
  edge in the list \<^verbatim>\<open>visited\<close> (or is not registered), and it has changed unless it stood
  at such a position already, so an enumeration in progress on a printed vertex is
  disturbed. Nothing else is changed: ids, attributes, adjacency lists and edges are as
  before, the cursor of a vertex that is not printed is not written, the graph is only
  read, and \<^verbatim>\<open>visited\<close> grows by the ids of the edges printed, in that order. The dump
  returns unless it follows an edge whose second vertex is not registered
  (AttributeError) or the depth admitted does not exceed the number of edges of the graph
  (RecursionError).
\<close>

theorem dump_graph_frame:
  "case dump_graph depth g (PVertex r) visited out h of
     Inl e \<Rightarrow>
       e = AttributeError \<and> \<not> ends_registered g h
       \<or> e = RecursionError \<and> depth \<le> length (gedges g)
   | Inr (h', visited', out') \<Rightarrow>
       cursor_only h h'
       \<and> (\<exists>new. out' = out @ PVertex r # new
            \<and> visited' = visited @ printed_ids h new
            \<and> (\<forall>r'. PVertex r' \<in> set (PVertex r # new) \<or> vheap h' r' = vheap h r')
            \<and> list_all
                 (\<lambda>p. case p of
                         PVertex r' \<Rightarrow>
                           stopped g (vheap h' r')
                           \<and> passed_done g h' visited' r'
                           \<and> (stopped g (vheap h r') \<or> iv (vheap h' r') \<noteq> iv (vheap h r'))
                       | _ \<Rightarrow> True)
                 (PVertex r # new))"
proof (cases "dump_graph depth g (PVertex r) visited out h")
  case (Inl e)
  have "e = AttributeError \<Longrightarrow> \<not> ends_registered g h"
    using dump_no_AttributeError(1)[of g h "PVertex r" depth visited out] Inl by auto
  moreover have "e = RecursionError \<Longrightarrow> depth \<le> length (gedges g)"
  proof (rule ccontr)
    assume e: "e = RecursionError" and "\<not> depth \<le> length (gedges g)"
    with card_registered_ids[of g h visited]
    have "card (registered_ids g h - set visited) < depth" by simp
    from dump_no_RecursionError(1)[OF this, of "PVertex r" out] Inl e show False by simp
  qed
  ultimately show ?thesis
    using dump_Inl(1)[OF Inl] Inl by auto
next
  case (Inr res)
  obtain h' visited' out' where res: "res = (h', visited', out')"
    by (cases res)
  note d = Inr[unfolded res]
  from dump_partial(1)[OF all_dom(1) d] have c: "cursor_only h h'" by simp
  from dump_stopped(1)[OF d] obtain new where n: "out' = out @ PVertex r # new"
    and s: "\<forall>r'. PVertex r' \<in> set (PVertex r # new) \<or> stopped g (vheap h r')
              \<longrightarrow> stopped g (vheap h' r')"
    by blast
  from dump_touch(1)[OF d] n
  have t: "\<forall>r'. PVertex r' \<in> set (PVertex r # new) \<or> vheap h' r' = vheap h r'"
    and i: "visited' = visited @ printed_ids h new"
    by auto
  from dump_passed(1)[OF d] n
  have p: "\<forall>r'. PVertex r' \<in> set (PVertex r # new) \<or> passed_done g h visited r'
              \<longrightarrow> passed_done g h' visited' r'"
    by auto
  have "list_all
          (\<lambda>p. case p of
                  PVertex r' \<Rightarrow>
                    stopped g (vheap h' r')
                    \<and> passed_done g h' visited' r'
                    \<and> (stopped g (vheap h r') \<or> iv (vheap h' r') \<noteq> iv (vheap h r'))
                | _ \<Rightarrow> True)
          (PVertex r # new)"
    unfolding list_all_iff
  proof
    fix q assume q: "q \<in> set (PVertex r # new)"
    show "case q of
            PVertex r' \<Rightarrow>
              stopped g (vheap h' r')
              \<and> passed_done g h' visited' r'
              \<and> (stopped g (vheap h r') \<or> iv (vheap h' r') \<noteq> iv (vheap h r'))
          | _ \<Rightarrow> True"
    proof (cases q)
      case (PVertex r')
      with q s have st: "stopped g (vheap h' r')" by blast
      from PVertex q p have "passed_done g h' visited' r'" by blast
      with st stopped_changes[OF c st] PVertex show ?thesis by simp
    qed simp_all
  qed
  with c n t i
  have "cursor_only h h'
       \<and> (\<exists>new. out' = out @ PVertex r # new
            \<and> visited' = visited @ printed_ids h new
            \<and> (\<forall>r'. PVertex r' \<in> set (PVertex r # new) \<or> vheap h' r' = vheap h r')
            \<and> list_all
                 (\<lambda>p. case p of
                         PVertex r' \<Rightarrow>
                           stopped g (vheap h' r')
                           \<and> passed_done g h' visited' r'
                           \<and> (stopped g (vheap h r') \<or> iv (vheap h' r') \<noteq> iv (vheap h r'))
                       | _ \<Rightarrow> True)
                 (PVertex r # new))"
    by blast
  then show ?thesis
    unfolding d by (simp only: sum.case prod.case)
qed

text \<open>
  C10, the amended statement at the dump of cell 10: in the test graph every second vertex
  is registered and there are fewer edges than the depth admitted; the dump returns, it
  has changed nothing but cursors, and the cursor of each of the three vertices, which
  was not at a stop position before, is at one now and has changed.
\<close>

theorem dump_graph_frame_witness:
  "(case cell10_build of Inl e \<Rightarrow> False
    | Inr (g, h, v1, v2, v3) \<Rightarrow>
        ends_registered g h \<and> length (gedges g) < cell_depth
        \<and> (case dump_graph cell_depth g (PVertex v1) [] [] h of Inl e \<Rightarrow> False
           | Inr (h', visited, out) \<Rightarrow>
               cursor_only h h'
               \<and> out = [PVertex v1, PEdge 0, PVertex v2, PEdge 1, PVertex v3]
               \<and> list_all (\<lambda>r. \<not> stopped g (vheap h r) \<and> stopped g (vheap h' r)
                                \<and> iv (vheap h' r) \<noteq> iv (vheap h r)) [v1, v2, v3]))"
proof -
  note m = dump_graph_moves_cursors
  obtain g h v1 v2 v3 where b: "cell10_build = Inr (g, h, v1, v2, v3)"
    using m by (auto split: sum.splits simp del: dump_graph.simps)
  from m have m': "ends_registered g h \<and> length (gedges g) = 2
        \<and> (case dump_graph cell_depth g (PVertex v1) [] [] h of Inl e \<Rightarrow> False
           | Inr (h', visited, out) \<Rightarrow>
               out = [PVertex v1, PEdge 0, PVertex v2, PEdge 1, PVertex v3]
               \<and> map (\<lambda>r. iv (vheap h r)) [v1, v2, v3] = [0, 0, 0]
               \<and> map (\<lambda>r. stopped g (vheap h r)) [v1, v2, v3] = [False, False, False]
               \<and> map (\<lambda>r. iv (vheap h' r)) [v1, v2, v3] = [1, 2, 1])"
    unfolding b by (simp del: dump_graph.simps)
  then have w: "ends_registered g h" "length (gedges g) = 2"
    by blast+
  obtain h' visited out where d: "dump_graph cell_depth g (PVertex v1) [] [] h = Inr (h', visited, out)"
    using m' by (cases "dump_graph cell_depth g (PVertex v1) [] [] h") (auto simp del: dump_graph.simps)
  from m' d have o: "out = [PVertex v1, PEdge 0, PVertex v2, PEdge 1, PVertex v3]"
    and n: "map (\<lambda>r. stopped g (vheap h r)) [v1, v2, v3] = [False, False, False]"
    by (simp_all del: dump_graph.simps)
  from dump_graph_frame[where depth = cell_depth and g = g and r = v1 and visited = "[]"
      and out = "[]" and h = h] d o n
  have "cursor_only h h'
      \<and> list_all (\<lambda>r. \<not> stopped g (vheap h r) \<and> stopped g (vheap h' r)
                       \<and> iv (vheap h' r) \<noteq> iv (vheap h r)) [v1, v2, v3]"
    by (simp del: dump_graph.simps)
  moreover have "length (gedges g) < cell_depth"
    using w by (simp add: cell_depth_def)
  ultimately show ?thesis
    unfolding b using w(1) d o by (simp del: dump_graph.simps)
qed

end
